theory Spec2Isabelle
  imports Complex_Main "HOL-Library.AList" "HOL-Library.Multiset"
begin

section \<open>GitIngest Manager: a shallow embedding of \<^verbatim>\<open>utils/gitingest_manager.py\<close>\<close>

text \<open>
  The class \<^verbatim>\<open>GitIngestManager\<close> drives an external ingestion command, measures its
  output, names the artifact, records metadata and cleans old artifacts. Each method
  is translated into a HOL function of the same name. Python \<^verbatim>\<open>str\<close> values are
  \<open>string\<close>s, Python \<^verbatim>\<open>int\<close>s are \<open>int\<close>s, exceptions are values of the type \<open>error\<close>
  returned on the left of a sum, and everything outside the program (the file system,
  external processes, the clock, the HTTP service, codecs) is an explicit argument.
\<close>

subsection \<open>Exceptions\<close>

datatype error =
    KeyError
  | ValueError
  | IndexError
  | AttributeError
  | ZeroDivisionError
  | OverflowError
  | FileNotFoundError
  | UnicodeDecodeError
  | JSONDecodeError
  | OSError
  | CalledProcessError int string
  | SystemExit int

subsection \<open>Strings\<close>

text \<open>\<^verbatim>\<open>str(n)\<close> for an integer: its decimal digits, with a minus sign when negative.\<close>

definition digit_char :: "nat \<Rightarrow> char" where
  "digit_char d = ''0123456789'' ! d"

fun str_nat :: "nat \<Rightarrow> string" where
  "str_nat n = (if n < 10 then [digit_char n] else str_nat (n div 10) @ [digit_char (n mod 10)])"

declare str_nat.simps [simp del]

definition str_int :: "int \<Rightarrow> string" where
  "str_int i = (if i < 0 then CHR ''-'' # str_nat (nat (- i)) else str_nat (nat i))"

text \<open>\<^verbatim>\<open>s.startswith(p)\<close>, \<^verbatim>\<open>s.endswith(p)\<close> and \<^verbatim>\<open>p in s\<close>.\<close>

definition startswith :: "string \<Rightarrow> string \<Rightarrow> bool" where
  "startswith s p = (take (length p) s = p)"

definition endswith :: "string \<Rightarrow> string \<Rightarrow> bool" where
  "endswith s p = (length p \<le> length s \<and> drop (length s - length p) s = p)"

fun contains :: "string \<Rightarrow> string \<Rightarrow> bool" where
  "contains [] p = (p = [])"
| "contains (c # cs) p = (startswith (c # cs) p \<or> contains cs p)"

text \<open>
  \<^verbatim>\<open>s.split(sep)\<close> for a one-character separator: the pieces between the separators;
  the result is never empty.
\<close>

fun split_char :: "char \<Rightarrow> string \<Rightarrow> string list" where
  "split_char sep [] = [[]]"
| "split_char sep (c # cs) =
     (if c = sep then [] # split_char sep cs
      else (case split_char sep cs of
              [] \<Rightarrow> [[c]]
            | p # ps \<Rightarrow> (c # p) # ps))"

text \<open>
  White space as \<^verbatim>\<open>str.isspace\<close> sees it, \<^verbatim>\<open>s.strip()\<close>, and \<^verbatim>\<open>s.split()\<close> with no
  argument (the maximal runs of characters that are not white space).
\<close>

definition is_space :: "char \<Rightarrow> bool" where
  "is_space c = (of_char c \<in> {9, 10, 11, 12, 13, 28, 29, 30, 31, 32, 133, 160 :: nat})"

definition strip :: "string \<Rightarrow> string" where
  "strip s = rev (dropWhile is_space (rev (dropWhile is_space s)))"

fun split_ws :: "string \<Rightarrow> string list" where
  "split_ws [] = []"
| "split_ws (c # cs) =
     (if is_space c then split_ws cs
      else (case cs of
              [] \<Rightarrow> [[c]]
            | d # ds \<Rightarrow>
                if is_space d then [c] # split_ws cs
                else (case split_ws cs of
                        [] \<Rightarrow> [[c]]
                      | w # ws \<Rightarrow> (c # w) # ws)))"

text \<open>
  \<^verbatim>\<open>int(s)\<close> on a token without white space: an optional sign, then decimal digits, where
  single underscores may stand between digits. \<open>None\<close> is Python's \<^verbatim>\<open>ValueError\<close>.
\<close>

definition is_digit :: "char \<Rightarrow> bool" where
  "is_digit c = (48 \<le> (of_char c :: nat) \<and> (of_char c :: nat) \<le> 57)"

definition digit_val :: "char \<Rightarrow> nat" where
  "digit_val c = of_char c - 48"

fun parse_digits :: "nat \<Rightarrow> string \<Rightarrow> nat option" where
  "parse_digits acc [] = Some acc"
| "parse_digits acc [c] = (if is_digit c then Some (10 * acc + digit_val c) else None)"
| "parse_digits acc (c # d # ds) =
     (if is_digit c then parse_digits (10 * acc + digit_val c) (d # ds)
      else if c = CHR ''_'' \<and> is_digit d then parse_digits (10 * acc + digit_val d) ds
      else None)"

definition parse_nat :: "string \<Rightarrow> nat option" where
  "parse_nat s = (case s of [] \<Rightarrow> None
                  | c # cs \<Rightarrow> if is_digit c then parse_digits (digit_val c) cs else None)"

definition py_int :: "string \<Rightarrow> int option" where
  "py_int s = (case s of
       [] \<Rightarrow> None
     | c # cs \<Rightarrow>
         if c = CHR ''-'' then map_option (\<lambda>n. - int n) (parse_nat cs)
         else if c = CHR ''+'' then map_option int (parse_nat cs)
         else map_option int (parse_nat s))"

subsection \<open>Floating point, as far as the formatter needs it\<close>

text \<open>
  \<^verbatim>\<open>count / 1_000_000\<close> is Python's true division of two integers: the quotient rounded
  correctly (to nearest, ties to even) to an IEEE binary64 number, and
  \<^verbatim>\<open>OverflowError\<close> when that number would be infinite. A finite binary64 number is a
  rational, so the model is exact: \<open>bit_length\<close> finds the binary exponent \<open>e\<close> of the
  quotient, the unit in the last place is \<open>2 powi (e - 52)\<close> (or \<open>2 powi (- 1074)\<close>
  in the subnormal range), and the quotient is rounded to a multiple of that unit.
  The sign of a zero is not represented.
\<close>

fun bit_length :: "nat \<Rightarrow> nat" where
  "bit_length n = (if n = 0 then 0 else Suc (bit_length (n div 2)))"

declare bit_length.simps [simp del]

definition round_half_even :: "rat \<Rightarrow> int" where
  "round_half_even x =
     (let f = \<lfloor>x\<rfloor>; r = x - of_int f
      in if r < 1 / 2 then f
         else if 1 / 2 < r then f + 1
         else if even f then f else f + 1)"

definition binary_exponent :: "int \<Rightarrow> int \<Rightarrow> int" where
  "binary_exponent a b =
     (let d = int (bit_length (nat \<bar>a\<bar>)) - int (bit_length (nat \<bar>b\<bar>))
      in if 2 powi d \<le> \<bar>of_int a / of_int b :: rat\<bar> then d else d - 1)"

definition true_divide :: "int \<Rightarrow> int \<Rightarrow> error + rat" where
  "true_divide a b =
     (if b = 0 then Inl ZeroDivisionError
      else if a = 0 then Inr 0
      else
        let q = \<bar>of_int a / of_int b :: rat\<bar>;
            u = 2 powi (max (binary_exponent a b) (- 1022) - 52);
            x = of_int (round_half_even (q / u)) * u
        in if 2 ^ 1024 \<le> x then Inl OverflowError
           else Inr (if (a < 0) = (b < 0) then x else - x))"

text \<open>
  \<^verbatim>\<open>f"{x:.1f}"\<close> for a finite float: the exact value of \<open>x\<close> rounded to one decimal
  (ties to even), printed with all digits of the integer part.
\<close>

definition format_1f :: "rat \<Rightarrow> string" where
  "format_1f x =
     (let n = nat (round_half_even (\<bar>x\<bar> * 10));
          s = str_nat (n div 10) @ ''.'' @ str_nat (n mod 10)
      in if x < 0 then CHR ''-'' # s else s)"

subsection \<open>\<^verbatim>\<open>_format_token_count\<close>\<close>

definition format_token_count :: "int \<Rightarrow> error + string" where
  "format_token_count cnt =
     (if cnt \<ge> 1000000 then
        (case true_divide cnt 1000000 of
           Inl e \<Rightarrow> Inl e
         | Inr x \<Rightarrow> Inr (format_1f x @ ''M''))
      else if cnt \<ge> 1000 then Inr (str_int (cnt div 1000) @ ''k'')
      else Inr (str_int cnt))"

subsection \<open>The configuration document\<close>

text \<open>
  The configuration is the data model of the loaded YAML document: settings,
  repositories by name and profiles by name. Keys the code reads with \<^verbatim>\<open>.get\<close> are
  optional fields. The two pattern lists are Python list objects: the configuration
  holds references to them and \<open>heap\<close> holds their contents, so that a method which
  changed a stored list in place would show. A reference is an index into the heap; a
  new list object is put at the end.
\<close>

type_synonym ref = nat

type_synonym heap = "string list list"

record ingest_metadata =
  last_updated :: string
  token_count :: int
  character_count :: int
  file_count :: int
  last_file :: string
  used_profile :: string
  content_hash :: string

record repo_config =
  source :: string
  description :: "string option"
  exclusions :: "ref option"
  metadata :: "ingest_metadata option"

record profile_config =
  profile_description :: string
  additional_exclusions :: "ref option"

record settings_config =
  output_dir_setting :: string
  token_counter_setting :: string
  default_max_size :: "int option"

record configuration =
  settings :: settings_config
  repositories :: "string \<rightharpoonup> repo_config"
  profiles :: "string \<rightharpoonup> profile_config"

text \<open>\<^verbatim>\<open>[]\<close> and \<^verbatim>\<open>xs.copy()\<close> make a new list object; \<^verbatim>\<open>xs.extend(ys)\<close> changes \<open>xs\<close> in place.\<close>

definition alloc :: "string list \<Rightarrow> heap \<Rightarrow> ref \<times> heap" where
  "alloc xs h = (length h, h @ [xs])"

definition list_copy :: "ref \<Rightarrow> heap \<Rightarrow> ref \<times> heap" where
  "list_copy r h = alloc (h ! r) h"

definition list_extend :: "ref \<Rightarrow> ref \<Rightarrow> heap \<Rightarrow> heap" where
  "list_extend r other h = h[r := h ! r @ h ! other]"

subsection \<open>\<^verbatim>\<open>_get_exclusions\<close> and \<^verbatim>\<open>_build_gitingest_command\<close>\<close>

text \<open>
  A repository configuration always has its \<open>source\<close>, so it is a non-empty dictionary
  and \<^verbatim>\<open>if not repo_config\<close> holds exactly when the name is not configured.
\<close>

definition get_exclusions :: "configuration \<Rightarrow> heap \<Rightarrow> string \<Rightarrow> string \<Rightarrow> error + ref \<times> heap" where
  "get_exclusions cfg h repo_name profile =
     (case repositories cfg repo_name of
        None \<Rightarrow> Inl ValueError
      | Some rc \<Rightarrow>
          let (stored, h1) = (case exclusions rc of Some r \<Rightarrow> (r, h) | None \<Rightarrow> alloc [] h);
              (excl, h2) = list_copy stored h1
          in (case profiles cfg profile of
                None \<Rightarrow> Inr (excl, h2)
              | Some pc \<Rightarrow>
                  let (profile_exclusions, h3) =
                        (case additional_exclusions pc of Some r \<Rightarrow> (r, h2) | None \<Rightarrow> alloc [] h2)
                  in Inr (excl, list_extend excl profile_exclusions h3)))"

definition build_gitingest_command ::
  "configuration \<Rightarrow> heap \<Rightarrow> string \<Rightarrow> string \<Rightarrow> string \<Rightarrow> error + string list \<times> heap" where
  "build_gitingest_command cfg h repo_name output_file profile =
     (case repositories cfg repo_name of
        None \<Rightarrow> Inl KeyError
      | Some rc \<Rightarrow>
          (case get_exclusions cfg h repo_name profile of
             Inl e \<Rightarrow> Inl e
           | Inr (excl, h') \<Rightarrow>
               let cmd = [''gitingest'', source rc, ''-o'', output_file];
                   cmd = (case default_max_size (settings cfg) of
                            None \<Rightarrow> cmd
                          | Some max_size \<Rightarrow>
                              if max_size \<noteq> 0 then cmd @ [''-s'', str_int max_size] else cmd)
               in Inr (foldl (\<lambda>cmd exclusion. cmd @ [''-e'', exclusion]) cmd (h' ! excl), h')))"

subsection \<open>The world outside the program\<close>

text \<open>
  A file is its bytes and its modification time. The file system is a list of paths
  with their files, in the order in which a directory listing yields them; a path is
  the string \<^verbatim>\<open>str(path)\<close>. Directories are not files of their own: a path belongs to
  the directory that is its text up to the last \<^verbatim>\<open>/\<close>. Writing and renaming are taken
  to succeed whenever their source exists.
\<close>

type_synonym path = string

type_synonym bytes = "char list"

record file_entry =
  content :: bytes
  mtime :: rat

type_synonym filesystem = "(path \<times> file_entry) list"

text \<open>A finished process (\<^verbatim>\<open>returncode\<close>, \<^verbatim>\<open>stdout\<close>, \<^verbatim>\<open>stderr\<close>), or one that could not be started.\<close>

datatype proc = Spawn_Failed | Completed int string string

datatype json = JNull | JBool bool | JNum int | JStr string | JArr "json list" | JObj "(string \<times> json) list"

text \<open>
  The answer to an HTTP request: an exception of the \<^verbatim>\<open>requests\<close> library, or a response
  with its status code and what \<^verbatim>\<open>response.json()\<close> returns (\<open>None\<close> when it raises).
\<close>

datatype http = Http_Failed | Response int "json option"

text \<open>
  The environment holds what the program calls and does not define: \<^verbatim>\<open>subprocess.run\<close>
  (a process sees the file system and may change it), \<^verbatim>\<open>requests.get\<close>, the formatted
  \<^verbatim>\<open>datetime.now()\<close>, reading a file as text (\<^verbatim>\<open>encoding='utf-8'\<close>, or the locale's
  encoding when none is given; \<open>None\<close> is \<^verbatim>\<open>UnicodeDecodeError\<close>), the first eight
  characters of the MD5 digest's hexadecimal form, \<^verbatim>\<open>yaml.dump\<close>, \<^verbatim>\<open>json.load\<close> (\<open>None\<close>
  when the content is no JSON document and it raises) and \<^verbatim>\<open>json.dump\<close> on file
  contents, and the time a written file receives.
\<close>

record env =
  run :: "string list \<Rightarrow> filesystem \<Rightarrow> proc \<times> filesystem"
  http_get :: "string \<Rightarrow> http"
  now :: string
  decode_utf8 :: "bytes \<Rightarrow> string option"
  decode_locale :: "bytes \<Rightarrow> string option"
  md5_hexdigest :: "bytes \<Rightarrow> string"
  yaml_dump :: "heap \<Rightarrow> configuration \<Rightarrow> bytes"
  json_load :: "bytes \<Rightarrow> json option"
  json_dump :: "json \<Rightarrow> bytes"
  write_time :: "path \<Rightarrow> rat"

text \<open>Every \<^verbatim>\<open>print\<close> of the program is a message; the strings carry what it interpolates.\<close>

datatype message =
    Msg_Ingesting string string
  | Msg_Running "string list"
  | Msg_Stdout string
  | Msg_Counting
  | Msg_Counter_Not_Found string
  | Msg_Counter_Error int
  | Msg_Release_Warning
  | Msg_Success string path int int int
  | Msg_Gitingest_Error int
  | Msg_Stderr string
  | Msg_Cleaning int
  | Msg_Removing string nat
  | Msg_Removed nat nat

text \<open>
  The attributes \<^verbatim>\<open>__init__\<close> sets once, and the state the methods change: the loaded
  configuration \<^verbatim>\<open>self.config\<close>, the list objects, the files, and what was printed.
\<close>

record manager =
  config_file :: path
  output_dir :: path
  token_counter :: string

record state =
  config :: configuration
  heap :: heap
  files :: filesystem
  stdout :: "message list"

definition joinpath :: "path \<Rightarrow> string \<Rightarrow> path" where
  "joinpath dir name = dir @ ''/'' @ name"

definition exists :: "filesystem \<Rightarrow> path \<Rightarrow> bool" where
  "exists fs p = (map_of fs p \<noteq> None)"

definition read_text :: "(bytes \<Rightarrow> string option) \<Rightarrow> filesystem \<Rightarrow> path \<Rightarrow> error + string" where
  "read_text decode fs p =
     (case map_of fs p of
        None \<Rightarrow> Inl FileNotFoundError
      | Some f \<Rightarrow> (case decode (content f) of None \<Rightarrow> Inl UnicodeDecodeError | Some t \<Rightarrow> Inr t))"

definition write_file :: "env \<Rightarrow> path \<Rightarrow> bytes \<Rightarrow> filesystem \<Rightarrow> filesystem" where
  "write_file e p b fs = AList.update p \<lparr>content = b, mtime = write_time e p\<rparr> fs"

definition unlink :: "path \<Rightarrow> filesystem \<Rightarrow> error + filesystem" where
  "unlink p fs = (if exists fs p then Inr (AList.delete p fs) else Inl FileNotFoundError)"

definition rename :: "path \<Rightarrow> path \<Rightarrow> filesystem \<Rightarrow> error + filesystem" where
  "rename src dst fs =
     (case map_of fs src of
        None \<Rightarrow> Inl FileNotFoundError
      | Some f \<Rightarrow> Inr (AList.update dst f (AList.delete src fs)))"

definition say :: "message list \<Rightarrow> state \<Rightarrow> state" where
  "say ms st = st\<lparr>stdout := stdout st @ ms\<rparr>"

subsection \<open>\<^verbatim>\<open>_count_tokens\<close>\<close>

text \<open>
  Both fallback blocks of the method are the same text: read the file as UTF-8 and
  return a quarter of its length with its length.
\<close>

definition estimate_tokens :: "env \<Rightarrow> filesystem \<Rightarrow> path \<Rightarrow> error + int \<times> int" where
  "estimate_tokens e fs file_path =
     (case read_text (decode_utf8 e) fs file_path of
        Inl err \<Rightarrow> Inl err
      | Inr text_read \<Rightarrow>
          let char_count = int (length text_read)
          in Inr (char_count div 4, char_count))"

definition count_tokens ::
  "env \<Rightarrow> manager \<Rightarrow> path \<Rightarrow> state \<Rightarrow> (error + int \<times> int) \<times> state" where
  "count_tokens e m file_path st =
     (if \<not> exists (files st) (token_counter m) then
        let st1 = say [Msg_Counter_Not_Found (token_counter m)] st
        in (estimate_tokens e (files st1) file_path, st1)
      else
        (case run e [token_counter m, file_path] (files st) of
           (Spawn_Failed, fs1) \<Rightarrow> (Inl OSError, st\<lparr>files := fs1\<rparr>)
         | (Completed returncode out err, fs1) \<Rightarrow>
             let st1 = st\<lparr>files := fs1\<rparr>
             in if returncode \<noteq> 0 then
                  let st2 = say [Msg_Counter_Error returncode] st1
                  in (estimate_tokens e (files st2) file_path, st2)
                else
                  (case split_ws (strip out) of
                     [] \<Rightarrow> (Inl ValueError, st1)
                   | first_part # _ \<Rightarrow>
                       (case py_int first_part of
                          None \<Rightarrow> (Inl ValueError, st1)
                        | Some tokens \<Rightarrow>
                            (case read_text (decode_utf8 e) (files st1) file_path of
                               Inl er \<Rightarrow> (Inl er, st1)
                             | Inr text_read \<Rightarrow> (Inr (tokens, int (length text_read)), st1))))))"

subsection \<open>\<^verbatim>\<open>_get_file_hash\<close>\<close>

definition get_file_hash :: "env \<Rightarrow> filesystem \<Rightarrow> path \<Rightarrow> error + string" where
  "get_file_hash e fs file_path =
     (case map_of fs file_path of
        None \<Rightarrow> Inl FileNotFoundError
      | Some f \<Rightarrow> Inr (take 8 (md5_hexdigest e (content f))))"

subsection \<open>\<^verbatim>\<open>_get_github_version\<close>\<close>

text \<open>
  \<^verbatim>\<open>data.get('tag_name', '')\<close> needs a dictionary and \<^verbatim>\<open>tag_name.startswith\<close> a string;
  on any other JSON value Python raises \<^verbatim>\<open>AttributeError\<close> inside the inner \<^verbatim>\<open>try\<close>,
  whose handler prints the warning. \<open>None\<close> is that exception.
\<close>

definition release_tag :: "json \<Rightarrow> string option" where
  "release_tag body =
     (case body of
        JObj kvs \<Rightarrow>
          (case (case map_of kvs ''tag_name'' of None \<Rightarrow> JStr [] | Some v \<Rightarrow> v) of
             JStr tag_name \<Rightarrow> Some (if startswith tag_name ''v'' then drop 1 tag_name else tag_name)
           | _ \<Rightarrow> None)
      | _ \<Rightarrow> None)"

definition get_github_version :: "env \<Rightarrow> string \<Rightarrow> state \<Rightarrow> (error + string option) \<times> state" where
  "get_github_version e repo_path st =
     (case run e [''git'', ''-C'', repo_path, ''config'', ''--get'', ''remote.origin.url''] (files st) of
        (Spawn_Failed, fs1) \<Rightarrow> (Inl OSError, st\<lparr>files := fs1\<rparr>)
      | (Completed returncode out err, fs1) \<Rightarrow>
          let st1 = st\<lparr>files := fs1\<rparr>
          in if returncode \<noteq> 0 then (Inr None, st1)
             else
               let remote_url = strip out
               in if contains remote_url ''github.com'' then
                    let remote_url = (if endswith remote_url ''.git''
                                      then take (length remote_url - 4) remote_url else remote_url);
                        pieces = split_char CHR ''/'' remote_url;
                        parts = drop (length pieces - 2) pieces
                    in (case parts of
                          owner # repo # _ \<Rightarrow>
                            let api_url = ''https://api.github.com/repos/'' @ owner @ ''/'' @ repo
                                          @ ''/releases/latest''
                            in (case http_get e api_url of
                                  Http_Failed \<Rightarrow> (Inr None, say [Msg_Release_Warning] st1)
                                | Response status_code body \<Rightarrow>
                                    if status_code = 200 then
                                      (case body of
                                         None \<Rightarrow> (Inr None, say [Msg_Release_Warning] st1)
                                       | Some parsed \<Rightarrow>
                                           (case release_tag parsed of
                                              None \<Rightarrow> (Inr None, say [Msg_Release_Warning] st1)
                                            | Some tag_name \<Rightarrow> (Inr (Some tag_name), st1)))
                                    else (Inr None, st1))
                        | _ \<Rightarrow> (Inl IndexError, st1))
                  else (Inr None, st1))"

subsection \<open>\<^verbatim>\<open>_save_config\<close> and \<^verbatim>\<open>_save_ingestion_log\<close>\<close>

definition save_config :: "env \<Rightarrow> manager \<Rightarrow> state \<Rightarrow> state" where
  "save_config e m st =
     st\<lparr>files := write_file e (config_file m) (yaml_dump e (heap st) (config st)) (files st)\<rparr>"

definition log_entry :: "string \<Rightarrow> string \<Rightarrow> string \<Rightarrow> ingest_metadata \<Rightarrow> json" where
  "log_entry repo_name profile output_name md =
     JObj [(''timestamp'', JStr (last_updated md)),
           (''repository'', JStr repo_name),
           (''profile'', JStr profile),
           (''file'', JStr output_name),
           (''tokens'', JNum (token_count md)),
           (''characters'', JNum (character_count md)),
           (''files'', JNum (file_count md)),
           (''hash'', JStr (content_hash md))]"

definition log_path :: "manager \<Rightarrow> path" where
  "log_path m = joinpath (output_dir m) ''ingestion_log.json''"

text \<open>\<^verbatim>\<open>log.append\<close> needs a list: on any other JSON value Python raises \<^verbatim>\<open>AttributeError\<close>.\<close>

definition load_log :: "env \<Rightarrow> manager \<Rightarrow> filesystem \<Rightarrow> error + json list" where
  "load_log e m fs =
     (case map_of fs (log_path m) of
        None \<Rightarrow> Inr []
      | Some f \<Rightarrow>
          (case json_load e (content f) of
             None \<Rightarrow> Inl JSONDecodeError
           | Some (JArr entries) \<Rightarrow> Inr entries
           | Some _ \<Rightarrow> Inl AttributeError))"

definition save_ingestion_log ::
  "env \<Rightarrow> manager \<Rightarrow> string \<Rightarrow> string \<Rightarrow> string \<Rightarrow> ingest_metadata \<Rightarrow> state \<Rightarrow> (error + unit) \<times> state" where
  "save_ingestion_log e m repo_name profile output_name md st =
     (case load_log e m (files st) of
        Inl er \<Rightarrow> (Inl er, st)
      | Inr entries \<Rightarrow>
          let entries = entries @ [log_entry repo_name profile output_name md]
          in (Inr (), st\<lparr>files := write_file e (log_path m) (json_dump e (JArr entries)) (files st)\<rparr>))"

subsection \<open>\<^verbatim>\<open>ingest\<close>\<close>

text \<open>\<^verbatim>\<open>content.count\<close> of the marker: the occurrences of a line feed followed by three backticks.\<close>

fun count_fences :: "string \<Rightarrow> nat" where
  "count_fences (a # b # c # d # rest) =
     (if [a, b, c, d] = [CHR 0x0A, CHR 0x60, CHR 0x60, CHR 0x60]
      then Suc (count_fences rest)
      else count_fences (b # c # d # rest))"
| "count_fences _ = 0"

text \<open>\<^verbatim>\<open>Path.name\<close>: the last component of a path.\<close>

definition path_name :: "path \<Rightarrow> string" where
  "path_name p = last (split_char CHR ''/'' p)"

text \<open>
  \<^verbatim>\<open>if not version\<close> holds for \<^verbatim>\<open>None\<close> and for the empty string; \<open>given\<close> keeps a
  version that is neither.
\<close>

definition given :: "string option \<Rightarrow> string option" where
  "given v = (case v of None \<Rightarrow> None | Some s \<Rightarrow> if s = [] then None else Some s)"

text \<open>The block \<^verbatim>\<open># Get version if not provided\<close>.\<close>

definition version_or_latest ::
  "env \<Rightarrow> string \<Rightarrow> string option \<Rightarrow> state \<Rightarrow> (error + string) \<times> state" where
  "version_or_latest e repo_name version st =
     (case given version of
        Some v \<Rightarrow> (Inr v, st)
      | None \<Rightarrow>
          (case repositories (config st) repo_name of
             None \<Rightarrow> (Inl KeyError, st)
           | Some rc \<Rightarrow>
               (case get_github_version e (source rc) st of
                  (Inl er, st1) \<Rightarrow> (Inl er, st1)
                | (Inr found, st1) \<Rightarrow>
                    (case given found of
                       None \<Rightarrow> (Inr ''latest'', st1)
                     | Some v \<Rightarrow> (Inr v, st1)))))"

text \<open>The block \<^verbatim>\<open># Update metadata\<close> ... \<^verbatim>\<open># Save metadata\<close>, and the closing prints.\<close>

definition record_ingest ::
  "env \<Rightarrow> manager \<Rightarrow> string \<Rightarrow> string \<Rightarrow> string \<Rightarrow> int \<Rightarrow> int \<Rightarrow> int \<Rightarrow> string \<Rightarrow> path
     \<Rightarrow> state \<Rightarrow> (error + unit) \<times> state" where
  "record_ingest e m repo_name profile timestamp tokens chars n_files final_filename final_output_path st =
     (case repositories (config st) repo_name of
        None \<Rightarrow> (Inl KeyError, st)
      | Some rc \<Rightarrow>
          (case get_file_hash e (files st) final_output_path of
             Inl er \<Rightarrow> (Inl er, st)
           | Inr digest \<Rightarrow>
               let md = \<lparr>last_updated = timestamp, token_count = tokens, character_count = chars,
                         file_count = n_files, last_file = final_filename, used_profile = profile,
                         content_hash = digest\<rparr>;
                   cfg = config st;
                   st1 = st\<lparr>config := cfg\<lparr>repositories :=
                            (repositories cfg)(repo_name \<mapsto> rc\<lparr>metadata := Some md\<rparr>)\<rparr>\<rparr>;
                   st2 = save_config e m st1
               in (case save_ingestion_log e m repo_name profile (path_name final_output_path) md st2 of
                     (Inl er, st3) \<Rightarrow> (Inl er, st3)
                   | (Inr u, st3) \<Rightarrow>
                       (Inr (), say [Msg_Success repo_name final_output_path tokens chars n_files] st3))))"

text \<open>The body of the \<^verbatim>\<open>try\<close> statement.\<close>

definition ingest_try ::
  "env \<Rightarrow> manager \<Rightarrow> string \<Rightarrow> string \<Rightarrow> string option \<Rightarrow> string \<Rightarrow> path \<Rightarrow> string list
     \<Rightarrow> state \<Rightarrow> (error + unit) \<times> state" where
  "ingest_try e m repo_name profile version timestamp temp_output_path cmd st =
     (case run e cmd (files st) of
        (Spawn_Failed, fs1) \<Rightarrow> (Inl OSError, st\<lparr>files := fs1\<rparr>)
      | (Completed returncode out err, fs1) \<Rightarrow>
          if returncode \<noteq> 0 then (Inl (CalledProcessError returncode err), st\<lparr>files := fs1\<rparr>)
          else
            let st1 = say [Msg_Stdout out, Msg_Counting] (st\<lparr>files := fs1\<rparr>)
            in (case count_tokens e m temp_output_path st1 of
                  (Inl er, st2) \<Rightarrow> (Inl er, st2)
                | (Inr (tokens, chars), st2) \<Rightarrow>
                    (case read_text (decode_locale e) (files st2) temp_output_path of
                       Inl er \<Rightarrow> (Inl er, st2)
                     | Inr text_read \<Rightarrow>
                         let n_files = int (count_fences text_read)
                         in (case version_or_latest e repo_name version st2 of
                               (Inl er, st3) \<Rightarrow> (Inl er, st3)
                             | (Inr v, st3) \<Rightarrow>
                                 (case format_token_count tokens of
                                    Inl er \<Rightarrow> (Inl er, st3)
                                  | Inr human_token_count \<Rightarrow>
                                      let final_filename =
                                            repo_name @ ''_'' @ v @ ''_'' @ human_token_count @ ''.md'';
                                          final_output_path = joinpath (output_dir m) final_filename
                                      in (case rename temp_output_path final_output_path (files st3) of
                                            Inl er \<Rightarrow> (Inl er, st3)
                                          | Inr fs4 \<Rightarrow>
                                              record_ingest e m repo_name profile timestamp tokens chars
                                                n_files final_filename final_output_path
                                                (st3\<lparr>files := fs4\<rparr>)))))))"

definition ingest ::
  "env \<Rightarrow> manager \<Rightarrow> string \<Rightarrow> string \<Rightarrow> string option \<Rightarrow> state \<Rightarrow> (error + unit) \<times> state" where
  "ingest e m repo_name profile version st =
     (let st0 = say [Msg_Ingesting repo_name profile] st;
          timestamp = now e;
          temp_filename = repo_name @ ''_temp_'' @ timestamp @ ''.md'';
          temp_output_path = joinpath (output_dir m) temp_filename
      in (case build_gitingest_command (config st0) (heap st0) repo_name temp_output_path profile of
            Inl er \<Rightarrow> (Inl er, st0)
          | Inr (cmd, h1) \<Rightarrow>
              let st1 = say [Msg_Running cmd] (st0\<lparr>heap := h1\<rparr>)
              in (case ingest_try e m repo_name profile version timestamp temp_output_path cmd st1 of
                    (Inl (CalledProcessError returncode err), st2) \<Rightarrow>
                      let st3 = say [Msg_Gitingest_Error returncode, Msg_Stderr err] st2
                      in if exists (files st3) temp_output_path then
                           (case unlink temp_output_path (files st3) of
                              Inl er \<Rightarrow> (Inl er, st3)
                            | Inr fs \<Rightarrow> (Inl (SystemExit 1), st3\<lparr>files := fs\<rparr>))
                         else (Inl (SystemExit 1), st3)
                  | outcome \<Rightarrow> outcome)))"

subsection \<open>\<^verbatim>\<open>clean_old\<close>\<close>

text \<open>
  \<^verbatim>\<open>self.output_dir.glob("*.md")\<close> yields the entries of the output directory whose names
  end in \<^verbatim>\<open>.md\<close>, in listing order. \<^verbatim>\<open>Path.stem\<close> is the name without its last suffix;
  a dot that starts or ends the name starts no suffix.
\<close>

definition md_entry :: "path \<Rightarrow> path \<Rightarrow> bool" where
  "md_entry dir p =
     (startswith p (dir @ ''/'') \<and>
      (let name = drop (length dir + 1) p in CHR ''/'' \<notin> set name \<and> endswith name ''.md''))"

definition glob_md :: "path \<Rightarrow> filesystem \<Rightarrow> path list" where
  "glob_md dir fs = filter (md_entry dir) (map fst fs)"

definition rfind :: "char \<Rightarrow> string \<Rightarrow> nat option" where
  "rfind c s =
     (if c \<in> set s then Some (length s - 1 - length (takeWhile (\<lambda>x. x \<noteq> c) (rev s))) else None)"

definition stem :: "string \<Rightarrow> string" where
  "stem name =
     (case rfind CHR ''.'' name of
        None \<Rightarrow> name
      | Some i \<Rightarrow> if 0 < i \<and> i < length name - 1 then take i name else name)"

text \<open>
  The dictionary \<^verbatim>\<open>repo_files\<close> keeps its keys in insertion order; a file is appended
  to the list of its key.
\<close>

type_synonym groups = "(string \<times> path list) list"

fun add_to_group :: "string \<Rightarrow> path \<Rightarrow> groups \<Rightarrow> groups" where
  "add_to_group repo f [] = [(repo, [f])]"
| "add_to_group repo f ((k, fl) # rest) =
     (if k = repo then (k, fl @ [f]) # rest else (k, fl) # add_to_group repo f rest)"

definition group_step :: "groups \<Rightarrow> path \<Rightarrow> groups" where
  "group_step repo_files f =
     (case split_char CHR ''_'' (stem (path_name f)) of
        [] \<Rightarrow> repo_files
      | repo # _ \<Rightarrow> add_to_group repo f repo_files)"

definition group_files :: "path list \<Rightarrow> groups" where
  "group_files listing = foldl group_step [] listing"

text \<open>
  \<^verbatim>\<open>files.sort(key=lambda f: f.stat().st_mtime, reverse=True)\<close>: a stable sort in
  descending order, which Python runs as reverse, sort, reverse, so that files with the same
  time keep their order. \<^verbatim>\<open>stat\<close> raises when the file is gone.
\<close>

fun stat_all :: "filesystem \<Rightarrow> path list \<Rightarrow> error + (rat \<times> path) list" where
  "stat_all fs [] = Inr []"
| "stat_all fs (p # ps) =
     (case map_of fs p of
        None \<Rightarrow> Inl FileNotFoundError
      | Some f \<Rightarrow> (case stat_all fs ps of Inl er \<Rightarrow> Inl er | Inr rest \<Rightarrow> Inr ((mtime f, p) # rest)))"

definition sort_newest_first :: "filesystem \<Rightarrow> path list \<Rightarrow> error + path list" where
  "sort_newest_first fs ps =
     (case stat_all fs ps of
        Inl er \<Rightarrow> Inl er
      | Inr keyed \<Rightarrow> Inr (map snd (rev (sort_key fst (rev keyed)))))"

text \<open>\<^verbatim>\<open>xs[k:]\<close>: a negative \<open>k\<close> counts from the end.\<close>

definition slice_from :: "int \<Rightarrow> 'a list \<Rightarrow> 'a list" where
  "slice_from k xs = (if 0 \<le> k then drop (nat k) xs else drop (nat (int (length xs) + k)) xs)"

text \<open>The state of the loops: the state of the program with the two totals.\<close>

fun remove_files ::
  "path list \<Rightarrow> state \<times> nat \<times> nat \<Rightarrow> (error + unit) \<times> state \<times> nat \<times> nat" where
  "remove_files [] acc = (Inr (), acc)"
| "remove_files (f # fs) (st, total_removed, total_size) =
     (case map_of (files st) f of
        None \<Rightarrow> (Inl FileNotFoundError, st, total_removed, total_size)
      | Some entry \<Rightarrow>
          let size_bytes = length (content entry);
              st1 = say [Msg_Removing (path_name f) size_bytes] st
          in (case unlink f (files st1) of
                Inl er \<Rightarrow> (Inl er, st1, total_removed, total_size)
              | Inr fs1 \<Rightarrow>
                  remove_files fs (st1\<lparr>files := fs1\<rparr>, total_removed + 1, total_size + size_bytes)))"

fun clean_groups ::
  "int \<Rightarrow> groups \<Rightarrow> state \<times> nat \<times> nat \<Rightarrow> (error + unit) \<times> state \<times> nat \<times> nat" where
  "clean_groups keep_latest [] acc = (Inr (), acc)"
| "clean_groups keep_latest ((repo, fl) # rest) (st, total_removed, total_size) =
     (case sort_newest_first (files st) fl of
        Inl er \<Rightarrow> (Inl er, st, total_removed, total_size)
      | Inr sorted_files \<Rightarrow>
          (case remove_files (slice_from keep_latest sorted_files) (st, total_removed, total_size) of
             (Inl er, acc) \<Rightarrow> (Inl er, acc)
           | (Inr u, acc) \<Rightarrow> clean_groups keep_latest rest acc))"

definition clean_old :: "manager \<Rightarrow> int \<Rightarrow> state \<Rightarrow> (error + unit) \<times> state" where
  "clean_old m keep_latest st =
     (let st0 = say [Msg_Cleaning keep_latest] st;
          repo_files = group_files (glob_md (output_dir m) (files st0))
      in (case clean_groups keep_latest repo_files (st0, 0, 0) of
            (Inl er, st1, total_removed, total_size) \<Rightarrow> (Inl er, st1)
          | (Inr u, st1, total_removed, total_size) \<Rightarrow>
              (Inr (), say [Msg_Removed total_removed total_size] st1)))"

section \<open>Vocabulary of the properties\<close>

subsection \<open>Patterns and arguments\<close>

text \<open>
  The patterns a reference stands for, the validity of the references a configuration
  holds, the patterns a profile adds, and the arguments the command carries for the
  maximal size and for the patterns.
\<close>

definition stored_patterns :: "heap \<Rightarrow> ref option \<Rightarrow> string list" where
  "stored_patterns h r = (case r of None \<Rightarrow> [] | Some a \<Rightarrow> h ! a)"

definition valid_ref :: "heap \<Rightarrow> ref option \<Rightarrow> bool" where
  "valid_ref h r = (case r of None \<Rightarrow> True | Some a \<Rightarrow> a < length h)"

definition heap_ok :: "configuration \<Rightarrow> heap \<Rightarrow> bool" where
  "heap_ok cfg h =
     ((\<forall>name rc. repositories cfg name = Some rc \<longrightarrow> valid_ref h (exclusions rc)) \<and>
      (\<forall>name pc. profiles cfg name = Some pc \<longrightarrow> valid_ref h (additional_exclusions pc)))"

definition profile_patterns :: "configuration \<Rightarrow> heap \<Rightarrow> string \<Rightarrow> string list" where
  "profile_patterns cfg h profile =
     (case profiles cfg profile of None \<Rightarrow> [] | Some pc \<Rightarrow> stored_patterns h (additional_exclusions pc))"

definition max_size_args :: "configuration \<Rightarrow> string list" where
  "max_size_args cfg =
     (case default_max_size (settings cfg) of
        None \<Rightarrow> []
      | Some max_size \<Rightarrow> if max_size = 0 then [] else [''-s'', str_int max_size])"

definition exclusion_args :: "string list \<Rightarrow> string list" where
  "exclusion_args patterns = concat (map (\<lambda>p. [''-e'', p]) patterns)"

subsection \<open>An example configuration\<close>

definition example_heap :: heap where
  "example_heap = [[''*.lock'', ''dist/*''], [''*.test.js'']]"

definition example_config :: configuration where
  "example_config =
     \<lparr>settings = \<lparr>output_dir_setting = ''out'', token_counter_setting = ''/bin/tc'',
                   default_max_size = Some 512\<rparr>,
      repositories = [''repo1'' \<mapsto> \<lparr>source = ''/src/repo1'', description = None,
                                     exclusions = Some 0, metadata = None\<rparr>],
      profiles = [''standard'' \<mapsto> \<lparr>profile_description = ''Standard profile'',
                                    additional_exclusions = Some 1\<rparr>]\<rparr>"


subsection \<open>A stub environment\<close>

text \<open>
  Test doubles for the outside world. The stub process runner answers the ingestion
  command (recognised by its name and its four leading arguments) with a given result
  after writing a file of 4000 characters to the output path, every other command of
  four or more arguments (the \<^verbatim>\<open>git\<close> query) with a second result, and a shorter command
  (the counter) with a third. No HTTP request succeeds, text is decoded byte by byte,
  and the JSON codec knows one document.
\<close>

definition stub_run :: "proc \<Rightarrow> proc \<Rightarrow> proc \<Rightarrow> string list \<Rightarrow> filesystem \<Rightarrow> proc \<times> filesystem" where
  "stub_run ingestion git counter argv fs =
     (case argv of
        prog # a # b # out_file # rest \<Rightarrow>
          if prog = ''gitingest''
          then (ingestion, AList.update out_file \<lparr>content = replicate 4000 CHR ''x'', mtime = 1\<rparr> fs)
          else (git, fs)
      | _ \<Rightarrow> (counter, fs))"

definition stub_env :: "proc \<Rightarrow> proc \<Rightarrow> proc \<Rightarrow> json \<Rightarrow> env" where
  "stub_env ingestion git counter known =
     \<lparr>run = stub_run ingestion git counter,
      http_get = (\<lambda>url. Http_Failed),
      now = ''20240101_120000'',
      decode_utf8 = Some,
      decode_locale = Some,
      md5_hexdigest = (\<lambda>b. ''d41d8cd98f00b204e9800998ecf8427e''),
      yaml_dump = (\<lambda>h cfg. ''settings: {}''),
      json_load = (\<lambda>b. if b = ''known'' then Some known else None),
      json_dump = (\<lambda>v. if v = known then ''known'' else ''other''),
      write_time = (\<lambda>p. 2)\<rparr>"

definition example_manager :: manager where
  "example_manager = \<lparr>config_file = ''gitingest.yaml'', output_dir = ''out'', token_counter = ''/bin/tc''\<rparr>"

definition example_state :: "filesystem \<Rightarrow> state" where
  "example_state fs = \<lparr>config = example_config, heap = example_heap, files = fs, stdout = []\<rparr>"

definition counter_binary :: "path \<times> file_entry" where
  "counter_binary = (''/bin/tc'', \<lparr>content = [], mtime = 0\<rparr>)"

definition example_metadata :: ingest_metadata where
  "example_metadata =
     \<lparr>last_updated = ''20240101_120000'', token_count = 1000, character_count = 4000,
      file_count = 0, last_file = ''repo1_latest_1k.md'', used_profile = ''standard'',
      content_hash = ''d41d8cd9''\<rparr>"

definition example_entry :: json where
  "example_entry = log_entry ''repo1'' ''standard'' ''repo1_latest_1k.md'' example_metadata"

subsection \<open>Retention\<close>

text \<open>
  The key of an artifact is the text before the first underscore of its stem. The time
  of a path is the modification time of its file. \<open>newest_first\<close> is the order the
  cleaner gives a group, and \<open>doomed\<close> lists what it removes from the groups: the files
  past the first \<open>k\<close> of each.
\<close>

definition repo_key :: "path \<Rightarrow> string" where
  "repo_key p = takeWhile (\<lambda>c. c \<noteq> CHR ''_'') (stem (path_name p))"

definition mtime_of :: "filesystem \<Rightarrow> path \<Rightarrow> rat" where
  "mtime_of fs p = (case map_of fs p of None \<Rightarrow> 0 | Some f \<Rightarrow> mtime f)"

definition newest_first :: "filesystem \<Rightarrow> path list \<Rightarrow> path list" where
  "newest_first fs ps = map snd (rev (sort_key fst (rev (map (\<lambda>p. (mtime_of fs p, p)) ps))))"

definition doomed :: "int \<Rightarrow> filesystem \<Rightarrow> groups \<Rightarrow> path list" where
  "doomed k fs gs = concat (map (\<lambda>g. slice_from k (newest_first fs (snd g))) gs)"

definition members :: "path \<Rightarrow> filesystem \<Rightarrow> string \<Rightarrow> path list" where
  "members dir fs key = filter (\<lambda>p. repo_key p = key) (glob_md dir fs)"

definition example_artifacts :: filesystem where
  "example_artifacts =
     [(''out/repo1_v1_1k.md'', \<lparr>content = ''first'', mtime = 1\<rparr>),
      (''out/repo1_v3_2k.md'', \<lparr>content = ''third'', mtime = 3\<rparr>),
      (''out/other_latest_5k.md'', \<lparr>content = ''other'', mtime = 1\<rparr>),
      (''out/repo1_v2_1k.md'', \<lparr>content = ''second'', mtime = 2\<rparr>),
      (''out/ingestion_log.json'', \<lparr>content = ''[]'', mtime = 3\<rparr>),
      (''gitingest.yaml'', \<lparr>content = ''settings: {}'', mtime = 0\<rparr>)]"

subsection \<open>Ingestion\<close>

text \<open>
  The temporary path of a run, and the exceptions that are neither the failure of a
  checked process nor the exit of the interpreter.
\<close>

definition temp_path :: "env \<Rightarrow> manager \<Rightarrow> string \<Rightarrow> path" where
  "temp_path e m repo_name = joinpath (output_dir m) (repo_name @ ''_temp_'' @ now e @ ''.md'')"

definition benign :: "error \<Rightarrow> bool" where
  "benign er = (case er of CalledProcessError returncode err \<Rightarrow> False | SystemExit n \<Rightarrow> False | _ \<Rightarrow> True)"

section \<open>Properties\<close>

subsection \<open>Exclusions and the command\<close>

lemma foldl_exclusion_args:
  "foldl (\<lambda>cmd exclusion. cmd @ [''-e'', exclusion]) c xs = c @ exclusion_args xs"
  by (induction xs arbitrary: c) (auto simp: exclusion_args_def)

lemma get_exclusions_result:
  assumes "repositories cfg repo_name = Some rc" and "heap_ok cfg h"
  shows "\<exists>excl h'. get_exclusions cfg h repo_name profile = Inr (excl, h') \<and>
           length h \<le> excl \<and> excl < length h' \<and> take (length h) h' = h \<and>
           h' ! excl = stored_patterns h (exclusions rc) @ profile_patterns cfg h profile"
proof (cases "profiles cfg profile")
  case None
  with assms show ?thesis
    by (auto simp: get_exclusions_def alloc_def list_copy_def stored_patterns_def valid_ref_def
        heap_ok_def profile_patterns_def nth_append split: option.splits prod.splits)
next
  case (Some pc)
  with assms have "valid_ref h (additional_exclusions pc)" "valid_ref h (exclusions rc)"
    by (auto simp: heap_ok_def)
  with assms Some show ?thesis
    by (auto simp: get_exclusions_def alloc_def list_copy_def list_extend_def stored_patterns_def
        valid_ref_def profile_patterns_def nth_append split: option.splits prod.splits)
qed

lemma build_command_result:
  assumes "repositories cfg repo_name = Some rc"
    and "get_exclusions cfg h repo_name profile = Inr (excl, h')"
  shows "build_gitingest_command cfg h repo_name output_file profile =
           Inr ([''gitingest'', source rc, ''-o'', output_file] @ max_size_args cfg @
                exclusion_args (h' ! excl), h')"
  using assms
  by (auto simp: build_gitingest_command_def max_size_args_def foldl_exclusion_args
      split: option.splits)

text \<open>
  Claim C4. For every configured repository and every profile name, \<open>get_exclusions\<close>
  returns a new list object (its reference lies beyond the heap it was given) and leaves
  every list object that existed unchanged; the new list starts with the repository's
  stored patterns in their order, followed by the profile's additional patterns in their
  order; an unknown profile adds nothing and raises nothing; and the command is
  \<^verbatim>\<open>gitingest\<close>, the source, \<^verbatim>\<open>-o\<close> with the output file, \<^verbatim>\<open>-s\<close> with the maximal size when
  one is set, then \<^verbatim>\<open>-e\<close> with each resolved pattern in that order.
\<close>

theorem exclusions_copied_in_order:
  assumes "repositories cfg repo_name = Some rc" and "heap_ok cfg h"
  shows "\<exists>excl h'. get_exclusions cfg h repo_name profile = Inr (excl, h') \<and>
           length h \<le> excl \<and> excl < length h' \<and> take (length h) h' = h \<and>
           h' ! excl = stored_patterns h (exclusions rc) @ profile_patterns cfg h profile \<and>
           length (stored_patterns h (exclusions rc)) \<le> length (h' ! excl) \<and>
           take (length (stored_patterns h (exclusions rc))) (h' ! excl) = stored_patterns h (exclusions rc) \<and>
           (profiles cfg profile = None \<longrightarrow> h' ! excl = stored_patterns h (exclusions rc)) \<and>
           build_gitingest_command cfg h repo_name output_file profile =
             Inr ([''gitingest'', source rc, ''-o'', output_file] @ max_size_args cfg @
                  exclusion_args (h' ! excl), h')"
proof -
  from get_exclusions_result [OF assms, of profile] obtain excl h' where
    r: "get_exclusions cfg h repo_name profile = Inr (excl, h')"
      "length h \<le> excl" "excl < length h'" "take (length h) h' = h"
      "h' ! excl = stored_patterns h (exclusions rc) @ profile_patterns cfg h profile"
    by blast
  have "profiles cfg profile = None \<longrightarrow> h' ! excl = stored_patterns h (exclusions rc)"
    using r(5) by (simp add: profile_patterns_def)
  with r build_command_result [OF assms(1) r(1), of output_file] show ?thesis
    by auto
qed

text \<open>The example configuration: two stored patterns, one more from the profile.\<close>

lemma example_heap_ok: "heap_ok example_config example_heap"
  by (auto simp: heap_ok_def example_config_def example_heap_def valid_ref_def split: if_splits)

theorem exclusions_copied_in_order_witness:
  "repositories example_config ''repo1'' \<noteq> None \<and> heap_ok example_config example_heap \<and>
   get_exclusions example_config example_heap ''repo1'' ''standard'' =
     Inr (2, example_heap @ [[''*.lock'', ''dist/*'', ''*.test.js'']]) \<and>
   get_exclusions example_config example_heap ''repo1'' ''unknown'' =
     Inr (2, example_heap @ [[''*.lock'', ''dist/*'']]) \<and>
   build_gitingest_command example_config example_heap ''repo1'' ''out/t.md'' ''standard'' =
     Inr ([''gitingest'', ''/src/repo1'', ''-o'', ''out/t.md'', ''-s'', ''512'',
           ''-e'', ''*.lock'', ''-e'', ''dist/*'', ''-e'', ''*.test.js''],
          example_heap @ [[''*.lock'', ''dist/*'', ''*.test.js'']])"
proof -
  have rc: "repositories example_config ''repo1'' =
      Some \<lparr>source = ''/src/repo1'', description = None, exclusions = Some 0, metadata = None\<rparr>"
    by (simp add: example_config_def)
  have s512: "str_int 512 = ''512''"
    by (simp add: str_int_def str_nat.simps digit_char_def)
  have computed:
    "get_exclusions example_config example_heap ''repo1'' ''standard'' =
       Inr (2, example_heap @ [[''*.lock'', ''dist/*'', ''*.test.js'']])"
    "get_exclusions example_config example_heap ''repo1'' ''unknown'' =
       Inr (2, example_heap @ [[''*.lock'', ''dist/*'']])"
    by (simp_all add: get_exclusions_def alloc_def list_copy_def list_extend_def
        example_config_def example_heap_def)
  from exclusions_copied_in_order [OF rc example_heap_ok, of "''standard''" "''out/t.md''"]
  obtain excl h' where
    "get_exclusions example_config example_heap ''repo1'' ''standard'' = Inr (excl, h')"
    "build_gitingest_command example_config example_heap ''repo1'' ''out/t.md'' ''standard'' =
       Inr ([''gitingest'', source \<lparr>source = ''/src/repo1'', description = None,
              exclusions = Some 0, metadata = None\<rparr>, ''-o'', ''out/t.md''] @
            max_size_args example_config @ exclusion_args (h' ! excl), h')"
    by blast
  with computed(1) have
    "build_gitingest_command example_config example_heap ''repo1'' ''out/t.md'' ''standard'' =
       Inr ([''gitingest'', ''/src/repo1'', ''-o'', ''out/t.md''] @ max_size_args example_config @
            exclusion_args [''*.lock'', ''dist/*'', ''*.test.js''],
            example_heap @ [[''*.lock'', ''dist/*'', ''*.test.js'']])"
    by (auto simp: example_heap_def)
  moreover have "max_size_args example_config = [''-s'', ''512'']"
    by (simp add: max_size_args_def example_config_def s512)
  ultimately show ?thesis
    by (simp add: rc example_heap_ok computed exclusion_args_def)
qed

subsection \<open>Counting tokens\<close>

lemma estimate_tokens_decoded:
  assumes "map_of fs file_path = Some f" and "decode_utf8 e (content f) = Some t"
  shows "estimate_tokens e fs file_path = Inr (int (length t) div 4, int (length t))"
  using assms by (simp add: estimate_tokens_def read_text_def Let_def)

text \<open>
  Claim C5. When no file stands at the configured path of the token counter, or the
  counter process ends with a non-zero status, and the measured file holds text \<open>t\<close> in
  UTF-8, \<open>count_tokens\<close> prints its warning (or error) and returns the pair of
  \<open>length t div 4\<close> and \<open>length t\<close>: it returns, it does not raise.
\<close>

theorem count_tokens_fallback:
  assumes "map_of fs1 file_path = Some f" and "decode_utf8 e (content f) = Some t"
    and "(\<not> exists (files st) (token_counter m) \<and> fs1 = files st \<and>
            warning = Msg_Counter_Not_Found (token_counter m)) \<or>
         (exists (files st) (token_counter m) \<and> returncode \<noteq> 0 \<and>
            run e [token_counter m, file_path] (files st) = (Completed returncode out err, fs1) \<and>
            warning = Msg_Counter_Error returncode)"
  shows "count_tokens e m file_path st =
           (Inr (int (length t) div 4, int (length t)),
            st\<lparr>files := fs1, stdout := stdout st @ [warning]\<rparr>)"
  using assms(3)
proof
  assume "\<not> exists (files st) (token_counter m) \<and> fs1 = files st \<and>
            warning = Msg_Counter_Not_Found (token_counter m)"
  with estimate_tokens_decoded [OF assms(1,2)] show ?thesis
    by (simp add: count_tokens_def say_def)
next
  assume "exists (files st) (token_counter m) \<and> returncode \<noteq> 0 \<and>
            run e [token_counter m, file_path] (files st) = (Completed returncode out err, fs1) \<and>
            warning = Msg_Counter_Error returncode"
  with estimate_tokens_decoded [OF assms(1,2)] show ?thesis
    by (simp add: count_tokens_def say_def)
qed

theorem count_tokens_fallback_witness:
  "count_tokens (stub_env (Completed 0 [] []) (Completed 1 [] []) (Completed 1 [] ''failed'') JNull)
     example_manager ''out/t.md''
     (example_state [(''out/t.md'', \<lparr>content = ''0123456789'', mtime = 1\<rparr>)]) =
     (Inr (2, 10),
      (example_state [(''out/t.md'', \<lparr>content = ''0123456789'', mtime = 1\<rparr>)])
        \<lparr>stdout := [Msg_Counter_Not_Found ''/bin/tc'']\<rparr>) \<and>
   count_tokens (stub_env (Completed 0 [] []) (Completed 1 [] []) (Completed 1 [] ''failed'') JNull)
     example_manager ''out/t.md''
     (example_state [counter_binary, (''out/t.md'', \<lparr>content = ''0123456789'', mtime = 1\<rparr>)]) =
     (Inr (2, 10),
      (example_state [counter_binary, (''out/t.md'', \<lparr>content = ''0123456789'', mtime = 1\<rparr>)])
        \<lparr>stdout := [Msg_Counter_Error 1]\<rparr>)"
proof -
  let ?e = "stub_env (Completed 0 [] []) (Completed 1 [] []) (Completed 1 [] ''failed'') JNull"
  let ?f = "\<lparr>content = ''0123456789'', mtime = 1\<rparr>"
  have d: "decode_utf8 ?e (content ?f) = Some ''0123456789''"
    by (simp add: stub_env_def)
  have a: "map_of [(''out/t.md'', ?f)] ''out/t.md'' = Some ?f"
    by simp
  have b: "map_of [counter_binary, (''out/t.md'', ?f)] ''out/t.md'' = Some ?f"
    by (simp add: counter_binary_def)
  have 1: "count_tokens ?e example_manager ''out/t.md'' (example_state [(''out/t.md'', ?f)]) =
      (Inr (int (length ''0123456789'') div 4, int (length ''0123456789'')),
       (example_state [(''out/t.md'', ?f)])\<lparr>files := [(''out/t.md'', ?f)],
          stdout := stdout (example_state [(''out/t.md'', ?f)]) @ [Msg_Counter_Not_Found ''/bin/tc'']\<rparr>)"
    by (rule count_tokens_fallback [OF a d])
       (simp add: exists_def example_state_def example_manager_def)
  have 2: "count_tokens ?e example_manager ''out/t.md''
        (example_state [counter_binary, (''out/t.md'', ?f)]) =
      (Inr (int (length ''0123456789'') div 4, int (length ''0123456789'')),
       (example_state [counter_binary, (''out/t.md'', ?f)])\<lparr>
          files := [counter_binary, (''out/t.md'', ?f)],
          stdout := stdout (example_state [counter_binary, (''out/t.md'', ?f)]) @ [Msg_Counter_Error 1]\<rparr>)"
    by (rule count_tokens_fallback [OF b d, where returncode = 1 and out = "[]" and err = "''failed''"])
       (simp add: exists_def example_state_def example_manager_def counter_binary_def
          stub_env_def stub_run_def)
  from 1 2 show ?thesis
    by (simp add: example_state_def)
qed

text \<open>
  Claim C6. When the counter process ends with status 0 and its output, stripped and
  split at white space, is empty or starts with a part that \<^verbatim>\<open>int\<close> cannot read,
  \<open>count_tokens\<close> raises \<^verbatim>\<open>ValueError\<close>; it does not fall back to the estimate.
\<close>

theorem count_tokens_unparseable_raises:
  assumes "exists (files st) (token_counter m)"
    and "run e [token_counter m, file_path] (files st) = (Completed 0 out err, fs1)"
    and "split_ws (strip out) = [] \<or>
         (\<exists>first_part rest. split_ws (strip out) = first_part # rest \<and> py_int first_part = None)"
  shows "count_tokens e m file_path st = (Inl ValueError, st\<lparr>files := fs1\<rparr>)"
  using assms by (auto simp: count_tokens_def)

theorem count_tokens_unparseable_raises_witness:
  "count_tokens (stub_env (Completed 0 [] []) (Completed 1 [] []) (Completed 0 [] []) JNull)
     example_manager ''out/t.md''
     (example_state [counter_binary, (''out/t.md'', \<lparr>content = ''0123456789'', mtime = 1\<rparr>)]) =
     (Inl ValueError, example_state [counter_binary, (''out/t.md'', \<lparr>content = ''0123456789'', mtime = 1\<rparr>)]) \<and>
   count_tokens (stub_env (Completed 0 [] []) (Completed 1 [] []) (Completed 0 ''n/a out/t.md'' []) JNull)
     example_manager ''out/t.md''
     (example_state [counter_binary, (''out/t.md'', \<lparr>content = ''0123456789'', mtime = 1\<rparr>)]) =
     (Inl ValueError, example_state [counter_binary, (''out/t.md'', \<lparr>content = ''0123456789'', mtime = 1\<rparr>)])"
proof -
  let ?st = "example_state [counter_binary, (''out/t.md'', \<lparr>content = ''0123456789'', mtime = 1\<rparr>)]"
  have ex: "exists (files ?st) (token_counter example_manager)"
    by (simp add: exists_def example_state_def example_manager_def counter_binary_def)
  have 1: "count_tokens (stub_env (Completed 0 [] []) (Completed 1 [] []) (Completed 0 [] []) JNull)
     example_manager ''out/t.md'' ?st = (Inl ValueError, ?st\<lparr>files := files ?st\<rparr>)"
    by (rule count_tokens_unparseable_raises [OF ex, where out = "[]" and err = "[]"])
       (simp_all add: stub_env_def stub_run_def example_manager_def strip_def)
  have 2: "count_tokens (stub_env (Completed 0 [] []) (Completed 1 [] []) (Completed 0 ''n/a out/t.md'' []) JNull)
     example_manager ''out/t.md'' ?st = (Inl ValueError, ?st\<lparr>files := files ?st\<rparr>)"
    by (rule count_tokens_unparseable_raises [OF ex, where out = "''n/a out/t.md''" and err = "[]"])
       (simp_all add: stub_env_def stub_run_def example_manager_def strip_def is_space_def
          py_int_def parse_nat_def is_digit_def)
  from 1 2 show ?thesis by simp
qed

subsection \<open>The ingestion log\<close>

lemma map_of_write_file:
  "map_of (write_file e p b fs) = (map_of fs)(p \<mapsto> \<lparr>content = b, mtime = write_time e p\<rparr>)"
  by (simp add: write_file_def update_conv')

text \<open>
  Claim C8, as the code has it. When the log loads as a sequence \<open>prior\<close> (the empty
  sequence when the log file is absent) and the JSON codec reads back the document it
  writes, \<open>save_ingestion_log\<close> rewrites the log file with \<open>prior\<close> extended by the one
  new entry at its end, and changes nothing else: no other file, not the configuration,
  not the list objects, not the output.
\<close>

theorem save_ingestion_log_appends:
  assumes "load_log e m (files st) = Inr prior"
    and "json_load e (json_dump e (JArr (prior @ [log_entry repo_name profile output_name md]))) =
           Some (JArr (prior @ [log_entry repo_name profile output_name md]))"
  shows "\<exists>st'. save_ingestion_log e m repo_name profile output_name md st = (Inr (), st') \<and>
           map_of (files st') (log_path m) =
             Some \<lparr>content = json_dump e (JArr (prior @ [log_entry repo_name profile output_name md])),
                   mtime = write_time e (log_path m)\<rparr> \<and>
           load_log e m (files st') = Inr (prior @ [log_entry repo_name profile output_name md]) \<and>
           (\<forall>q. q \<noteq> log_path m \<longrightarrow> map_of (files st') q = map_of (files st) q) \<and>
           (map_of (files st) (log_path m) = None \<longrightarrow> prior = []) \<and>
           config st' = config st \<and> heap st' = heap st \<and> stdout st' = stdout st"
proof -
  have "map_of (files st) (log_path m) = None \<longrightarrow> prior = []"
    using assms(1) by (auto simp: load_log_def)
  with assms show ?thesis
    by (simp add: save_ingestion_log_def load_log_def map_of_write_file)
qed

theorem save_ingestion_log_appends_witness:
  "load_log (stub_env (Completed 0 [] []) (Completed 1 [] []) (Completed 0 ''1000'' []) (JArr [example_entry]))
      example_manager [counter_binary] = Inr [] \<and>
   load_log (stub_env (Completed 0 [] []) (Completed 1 [] []) (Completed 0 ''1000'' []) (JArr [example_entry]))
      example_manager
      (files (snd (save_ingestion_log
         (stub_env (Completed 0 [] []) (Completed 1 [] []) (Completed 0 ''1000'' []) (JArr [example_entry]))
         example_manager ''repo1'' ''standard'' ''repo1_latest_1k.md'' example_metadata
         (example_state [counter_binary])))) = Inr [example_entry]"
proof -
  let ?e = "stub_env (Completed 0 [] []) (Completed 1 [] []) (Completed 0 ''1000'' []) (JArr [example_entry])"
  have a: "load_log ?e example_manager (files (example_state [counter_binary])) = Inr []"
    by (simp add: load_log_def log_path_def joinpath_def example_manager_def example_state_def
        counter_binary_def)
  have b: "json_load ?e (json_dump ?e (JArr ([] @ [log_entry ''repo1'' ''standard''
              ''repo1_latest_1k.md'' example_metadata]))) =
           Some (JArr ([] @ [log_entry ''repo1'' ''standard'' ''repo1_latest_1k.md'' example_metadata]))"
    by (simp add: stub_env_def example_entry_def)
  from save_ingestion_log_appends [OF a b] a show ?thesis
    by (auto simp: example_entry_def example_state_def)
qed

text \<open>
  A log file that exists and cannot be read is not taken for the empty sequence:
  \<^verbatim>\<open>json.load\<close> raises, nothing is appended and nothing is written.
\<close>

theorem save_ingestion_log_unreadable_counterexample:
  "save_ingestion_log
     (stub_env (Completed 0 [] []) (Completed 1 [] []) (Completed 0 ''1000'' []) (JArr [example_entry]))
     example_manager ''repo1'' ''standard'' ''repo1_latest_1k.md'' example_metadata
     (example_state [(''out/ingestion_log.json'', \<lparr>content = ''[{'', mtime = 1\<rparr>)]) =
   (Inl JSONDecodeError,
    example_state [(''out/ingestion_log.json'', \<lparr>content = ''[{'', mtime = 1\<rparr>)])"
  by (simp add: save_ingestion_log_def load_log_def log_path_def joinpath_def example_manager_def
      example_state_def stub_env_def)

subsection \<open>Formatting the token count\<close>

lemma bit_length_bounds:
  "0 < n \<Longrightarrow> 2 ^ (bit_length n - 1) \<le> n \<and> n < 2 ^ bit_length n"
proof (induction n rule: bit_length.induct)
  case (1 n)
  show ?case
  proof (cases "n div 2 = 0")
    case True
    with 1 have "n = 1" by (simp add: div_eq_0_iff)
    then show ?thesis by (simp add: bit_length.simps)
  next
    case False
    with 1 have IH: "2 ^ (bit_length (n div 2) - 1) \<le> n div 2" "n div 2 < 2 ^ bit_length (n div 2)"
      by auto
    from False have pos: "0 < bit_length (n div 2)"
      by (simp add: bit_length.simps [of "n div 2"])
    have bl: "bit_length n = Suc (bit_length (n div 2))"
      using 1(2) by (simp add: bit_length.simps [of n])
    from pos have "(2::nat) ^ (bit_length n - 1) = 2 * 2 ^ (bit_length (n div 2) - 1)"
      by (cases "bit_length (n div 2)") (simp_all add: bl)
    with IH bl show ?thesis by simp arith
  qed
qed

lemma round_half_even_near: "\<bar>of_int (round_half_even x) - x\<bar> \<le> 1 / 2"
proof -
  have "of_int \<lfloor>x\<rfloor> \<le> x" "x < of_int \<lfloor>x\<rfloor> + 1" by linarith+
  then show ?thesis
    by (auto simp: round_half_even_def Let_def)
qed

lemma round_half_even_le: "x \<le> of_int n \<Longrightarrow> round_half_even x \<le> n"
  using round_half_even_near [of x] by linarith

lemma round_half_even_ge: "of_int n \<le> x \<Longrightarrow> n \<le> round_half_even x"
  using round_half_even_near [of x] by linarith

lemma round_half_even_below_half: "x < of_int n - 1 / 2 \<Longrightarrow> round_half_even x \<le> n - 1"
  using round_half_even_near [of x] by linarith

lemma round_half_even_from_half:
  assumes "of_int n - 1 / 2 \<le> x" and "even n"
  shows "n \<le> round_half_even x"
proof (cases "x = of_int n - 1 / 2")
  case True
  then have f: "\<lfloor>x\<rfloor> = n - 1" by linarith
  with True assms(2) show ?thesis
    by (simp add: round_half_even_def Let_def)
next
  case False
  with assms(1) have "of_int n - 1 / 2 < x" by simp
  then show ?thesis using round_half_even_near [of x] by linarith
qed


lemma bit_length_powi:
  assumes "0 < a"
  shows "(2::rat) powi (int (bit_length (nat a)) - 1) \<le> of_int a"
    and "of_int a < (2::rat) powi (int (bit_length (nat a)))"
proof -
  from assms have n: "0 < nat a" by simp
  from bit_length_bounds [OF n] have
    lo: "2 ^ (bit_length (nat a) - 1) \<le> nat a" and hi: "nat a < 2 ^ bit_length (nat a)"
    by auto
  from hi n have pos: "0 < bit_length (nat a)"
    by (cases "bit_length (nat a)") auto
  from lo have "(of_nat (2 ^ (bit_length (nat a) - 1)) :: rat) \<le> of_nat (nat a)"
    by (rule of_nat_mono)
  then have "(2::rat) ^ (bit_length (nat a) - 1) \<le> of_int a"
    using assms by simp
  moreover from pos have "int (bit_length (nat a)) - 1 = int (bit_length (nat a) - 1)"
    by simp
  ultimately show "(2::rat) powi (int (bit_length (nat a)) - 1) \<le> of_int a"
    by (simp only: power_int_of_nat)
  from hi have "(of_nat (nat a) :: rat) < of_nat (2 ^ bit_length (nat a))"
    by (simp only: of_nat_less_iff)
  then show "of_int a < (2::rat) powi (int (bit_length (nat a)))"
    using assms by simp
qed

lemma binary_exponent_bounds:
  assumes "0 < a" and "0 < b"
  shows "(2::rat) powi (binary_exponent a b) \<le> of_int a / of_int b"
    and "of_int a / of_int b < (2::rat) powi (binary_exponent a b + 1)"
proof -
  define la where "la = int (bit_length (nat a))"
  define lb where "lb = int (bit_length (nat b))"
  define q :: rat where "q = of_int a / of_int b"
  have bpos: "(0::rat) < of_int b" using assms by simp
  have a: "(2::rat) powi (la - 1) \<le> of_int a" "of_int a < (2::rat) powi la"
    using bit_length_powi [OF assms(1)] by (simp_all add: la_def)
  have b: "(2::rat) powi (lb - 1) \<le> of_int b" "of_int b < (2::rat) powi lb"
    using bit_length_powi [OF assms(2)] by (simp_all add: lb_def)
  have "(2::rat) powi (la - lb - 1) * of_int b < 2 powi (la - lb - 1) * 2 powi lb"
    using b(2) by (intro mult_strict_left_mono) simp_all
  also have "\<dots> = 2 powi (la - 1)"
    by (simp add: power_int_add [symmetric])
  finally have "(2::rat) powi (la - lb - 1) * of_int b < of_int a"
    using a(1) by simp
  then have lower: "(2::rat) powi (la - lb - 1) < q"
    using bpos by (simp add: q_def pos_less_divide_eq)
  have "of_int a < (2::rat) powi (la - lb + 1) * 2 powi (lb - 1)"
    using a(2) by (simp add: power_int_add [symmetric])
  also have "\<dots> \<le> 2 powi (la - lb + 1) * of_int b"
    using b(1) by (intro mult_left_mono) simp_all
  finally have upper: "q < (2::rat) powi (la - lb + 1)"
    using bpos by (simp add: q_def pos_divide_less_eq)
  have abs: "\<bar>of_int a / of_int b :: rat\<bar> = q"
    using assms by (simp add: q_def)
  have nats: "nat \<bar>a\<bar> = nat a" "nat \<bar>b\<bar> = nat b"
    using assms by simp_all
  have e: "binary_exponent a b = (if 2 powi (la - lb) \<le> q then la - lb else la - lb - 1)"
    using assms by (simp add: binary_exponent_def Let_def nats la_def lb_def q_def)
  show "(2::rat) powi (binary_exponent a b) \<le> of_int a / of_int b"
    using lower by (simp add: e q_def)
  show "of_int a / of_int b < (2::rat) powi (binary_exponent a b + 1)"
    using upper by (auto simp: e q_def not_le)
qed


lemma powi_less_exp:
  assumes "(2::rat) powi m < 2 powi n"
  shows "m < n"
proof (rule ccontr)
  assume "\<not> m < n"
  then have "n \<le> m" by simp
  then have "(2::rat) powi n \<le> 2 powi m"
    by (intro power_int_increasing) simp_all
  with assms show False by simp
qed

text \<open>Rounding a positive rational to \<open>p + 1\<close> significant bits, and the overflow bound.\<close>

lemma rounded_overflow_iff:
  fixes q u x :: rat and e K :: int and p :: nat
  assumes lo: "2 powi e \<le> q" and hi: "q < 2 powi (e + 1)"
    and u: "u = 2 powi (e - int p)"
    and x: "x = of_int (round_half_even (q / u)) * u"
  shows "2 powi K \<le> x \<longleftrightarrow> 2 powi K - 2 powi (K - int p - 2) \<le> q"
proof -
  define P :: int where "P = 2 ^ p"
  define m where "m = round_half_even (q / u)"
  have Ppos: "0 < P" by (simp add: P_def)
  have upos: "0 < u" by (simp add: u)
  have ep: "2 powi e = of_int P * u"
    by (simp add: u power_int_diff P_def)
  have ep1: "2 powi (e + 1) = of_int (2 * P) * u"
    by (simp add: u power_int_diff power_int_add P_def)
  have xm: "x = of_int m * u" by (simp add: x m_def)
  have "of_int P \<le> q / u"
    using lo upos by (simp add: ep pos_le_divide_eq)
  then have m_lo: "P \<le> m" unfolding m_def by (rule round_half_even_ge)
  have "q / u \<le> of_int (2 * P)"
    using hi upos by (simp add: ep1 pos_divide_le_eq)
  then have m_hi: "m \<le> 2 * P" unfolding m_def by (rule round_half_even_le)
  have "of_int P * u \<le> of_int m * u"
    using upos m_lo by (intro mult_right_mono) simp_all
  then have x_lo: "2 powi e \<le> x" by (simp only: ep xm)
  have "of_int m * u \<le> of_int (2 * P) * u"
    using upos m_hi by (intro mult_right_mono) simp_all
  then have x_hi: "x \<le> 2 powi (e + 1)" by (simp only: ep1 xm)
  have Hpos: "(0::rat) < 2 powi (K - int p - 2)" by simp
  consider "e + 1 < K" | "e + 1 = K" | "K < e + 1" by linarith
  then show ?thesis
  proof cases
    case 1
    then have "(2::rat) powi (e + 1) \<le> 2 powi (K - 1)"
      by (intro power_int_increasing) simp_all
    moreover have "(2::rat) powi (K - int p - 2) \<le> 2 powi (K - 1)"
      by (intro power_int_increasing) simp_all
    moreover have "(2::rat) powi K = 2 * 2 powi (K - 1)"
      by (simp add: power_int_diff)
    moreover have "(0::rat) < 2 powi (K - 1)" by simp
    ultimately show ?thesis using x_hi hi by linarith
  next
    case 2
    then have K: "2 powi K = of_int (2 * P) * u" using ep1 by simp
    have H: "2 powi (K - int p - 2) = u / 2"
    proof -
      have "K - int p - 2 = (e - int p) - 1" using 2 by simp
      then show ?thesis by (simp add: u power_int_diff)
    qed
    show ?thesis
    proof
      assume ov: "2 powi K \<le> x"
      show "2 powi K - 2 powi (K - int p - 2) \<le> q"
      proof (rule ccontr)
        assume "\<not> 2 powi K - 2 powi (K - int p - 2) \<le> q"
        then have "q < of_int (2 * P) * u - u / 2" by (simp only: K H not_le)
        then have "q < (of_int (2 * P) - 1 / 2) * u" by (simp add: algebra_simps)
        then have "q / u < of_int (2 * P) - 1 / 2"
          using upos by (simp only: pos_divide_less_eq)
        then have "m \<le> 2 * P - 1"
          unfolding m_def by (rule round_half_even_below_half)
        then have "of_int m * u \<le> of_int (2 * P - 1) * u"
          using upos by (intro mult_right_mono) simp_all
        also have "\<dots> < of_int (2 * P) * u"
          using upos by (intro mult_strict_right_mono) simp_all
        finally have "x < 2 powi K" by (simp only: K xm)
        with ov show False by simp
      qed
    next
      assume "2 powi K - 2 powi (K - int p - 2) \<le> q"
      then have "of_int (2 * P) * u - u / 2 \<le> q" by (simp only: K H)
      then have "(of_int (2 * P) - 1 / 2) * u \<le> q" by (simp add: algebra_simps)
      then have "of_int (2 * P) - 1 / 2 \<le> q / u"
        using upos by (simp only: pos_le_divide_eq)
      then have "2 * P \<le> m"
        unfolding m_def by (rule round_half_even_from_half) simp
      then have "of_int (2 * P) * u \<le> of_int m * u"
        using upos by (intro mult_right_mono) simp_all
      then show "2 powi K \<le> x" by (simp only: K xm)
    qed
  next
    case 3
    then have "(2::rat) powi K \<le> 2 powi e"
      by (intro power_int_increasing) simp_all
    then show ?thesis using x_lo lo Hpos by linarith
  qed
qed

lemma rounded_error:
  fixes q u x :: rat and e :: int and p :: nat
  assumes lo: "2 powi e \<le> q"
    and u: "u = 2 powi (e - int p)"
    and x: "x = of_int (round_half_even (q / u)) * u"
  shows "\<bar>x - q\<bar> \<le> q / (2 * 2 ^ p)"
proof -
  have upos: "0 < u" by (simp add: u)
  have "u = 2 powi e / 2 ^ p" by (simp add: u power_int_diff)
  then have ule: "u \<le> q / 2 ^ p" using lo by (simp add: divide_right_mono)
  have "\<bar>of_int (round_half_even (q / u)) - q / u\<bar> * u \<le> 1 / 2 * u"
    using upos round_half_even_near [of "q / u"] by (intro mult_right_mono) simp_all
  moreover have "\<bar>of_int (round_half_even (q / u)) - q / u\<bar> * u = \<bar>x - q\<bar>"
  proof -
    have "\<bar>of_int (round_half_even (q / u)) - q / u\<bar> * u =
          \<bar>(of_int (round_half_even (q / u)) - q / u) * u\<bar>"
      using upos by (simp add: abs_mult)
    also have "(of_int (round_half_even (q / u)) - q / u) * u = x - q"
      using upos by (simp add: x algebra_simps)
    finally show ?thesis .
  qed
  ultimately have "\<bar>x - q\<bar> \<le> u / 2" by simp
  also have "\<dots> \<le> q / 2 ^ p / 2" using ule by simp
  finally show ?thesis by simp
qed


lemma true_divide_million:
  assumes "1000000 \<le> c"
  shows "\<exists>x. true_divide c 1000000 =
              (if (2 ^ 1024 - 2 ^ 970) * 1000000 \<le> c then Inl OverflowError else Inr x) \<and>
             \<bar>x - of_int c / 1000000\<bar> \<le> of_int c / 1000000 / 2 ^ 53"
proof -
  define q :: rat where "q = of_int c / of_int 1000000"
  define e where "e = binary_exponent c 1000000"
  define u :: rat where "u = 2 powi (e - int 52)"
  define x where "x = of_int (round_half_even (q / u)) * u"
  have cpos: "0 < c" using assms by simp
  have lo: "2 powi e \<le> q" and hi: "q < 2 powi (e + 1)"
    using binary_exponent_bounds [OF cpos, of 1000000] by (simp_all add: q_def e_def)
  have "1 \<le> q" using assms by (simp add: q_def)
  with hi have "(2::rat) powi 0 < 2 powi (e + 1)" by simp
  then have "0 < e + 1" by (rule powi_less_exp)
  then have emax: "max e (- 1022) = e" by simp
  have ov: "2 powi 1024 \<le> x \<longleftrightarrow> 2 powi 1024 - 2 powi (1024 - int 52 - 2) \<le> q"
    using lo hi u_def x_def by (rule rounded_overflow_iff)
  have "(2 powi 1024 - 2 powi (1024 - int 52 - 2) \<le> q) =
        (of_int ((2 ^ 1024 - 2 ^ 970) * 1000000) \<le> (of_int c :: rat))"
    by (simp add: q_def pos_le_divide_eq)
  also have "\<dots> = ((2 ^ 1024 - 2 ^ 970) * 1000000 \<le> c)"
    by (simp only: of_int_le_iff)
  finally have thr: "(2 powi 1024 - 2 powi (1024 - int 52 - 2) \<le> q) =
      ((2 ^ 1024 - 2 ^ 970) * 1000000 \<le> c)" .
  have err: "\<bar>x - q\<bar> \<le> q / (2 * 2 ^ 52)"
    using lo u_def x_def by (rule rounded_error)
  have abs: "\<bar>of_int c / of_int 1000000 :: rat\<bar> = q"
    using cpos by (simp add: q_def)
  have td: "true_divide c 1000000 = (if 2 ^ 1024 \<le> x then Inl OverflowError else Inr x)"
    using cpos emax [unfolded e_def]
    by (simp add: true_divide_def Let_def x_def u_def q_def e_def)
  have "(2 ^ 1024 \<le> x) = ((2 ^ 1024 - 2 ^ 970) * 1000000 \<le> c)"
    using ov thr by simp
  with td err show ?thesis
    by (intro exI [of _ x]) (simp add: q_def)
qed


lemma str_nat_digit: "n < 10 \<Longrightarrow> str_nat n = [digit_char n]"
  by (simp add: str_nat.simps)

lemma format_1f_nonneg:
  assumes "0 \<le> x"
  shows "\<exists>n. format_1f x = str_nat (n div 10) @ ''.'' @ [digit_char (n mod 10)] \<and>
             \<bar>of_nat n / 10 - x\<bar> \<le> 1 / 20"
proof -
  define n where "n = nat (round_half_even (x * 10))"
  have "of_int 0 \<le> x * 10" using assms by simp
  then have "0 \<le> round_half_even (x * 10)" by (rule round_half_even_ge)
  then have n: "of_nat n = (of_int (round_half_even (x * 10)) :: rat)"
    using assms by (simp add: n_def)
  have "\<bar>of_nat n - x * 10\<bar> \<le> 1 / 2"
    using round_half_even_near [of "x * 10"] by (simp only: n)
  then have near: "\<bar>of_nat n / 10 - x\<bar> \<le> 1 / 20" by linarith
  have "format_1f x = str_nat (n div 10) @ ''.'' @ [digit_char (n mod 10)]"
    using assms by (simp add: format_1f_def Let_def n_def [symmetric] str_nat_digit)
  with near show ?thesis by blast
qed

lemma format_token_count_millions:
  assumes "1000000 \<le> c" and "c < (2 ^ 1024 - 2 ^ 970) * 1000000"
  shows "\<exists>n. format_token_count c =
               Inr (str_nat (n div 10) @ ''.'' @ [digit_char (n mod 10)] @ ''M'') \<and>
             \<bar>of_nat n / 10 - of_int c / 1000000\<bar> \<le> (1 / 20 + of_int c / 1000000 / 2 ^ 53 :: rat)"
proof -
  from true_divide_million [OF assms(1)] assms(2) obtain x :: rat where
    td: "true_divide c 1000000 = Inr x" and
    err: "\<bar>x - of_int c / 1000000\<bar> \<le> of_int c / 1000000 / 2 ^ 53"
    by auto
  have "of_int c / 1000000 / 2 ^ 53 \<le> (of_int c / 1000000 :: rat)"
    using assms(1) by (simp add: field_simps)
  with err have "0 \<le> x" by linarith
  from format_1f_nonneg [OF this] obtain n where
    f: "format_1f x = str_nat (n div 10) @ ''.'' @ [digit_char (n mod 10)]" and
    near: "\<bar>of_nat n / 10 - x\<bar> \<le> 1 / 20"
    by blast
  from near err have "\<bar>of_nat n / 10 - of_int c / 1000000\<bar> \<le> (1 / 20 + of_int c / 1000000 / 2 ^ 53 :: rat)"
    by linarith
  moreover have "format_token_count c = Inr (str_nat (n div 10) @ ''.'' @ [digit_char (n mod 10)] @ ''M'')"
    using assms(1) by (simp add: format_token_count_def td f)
  ultimately show ?thesis by blast
qed

lemma format_token_count_overflow:
  assumes "(2 ^ 1024 - 2 ^ 970) * 1000000 \<le> c"
  shows "format_token_count c = Inl OverflowError"
proof -
  from assms have big: "1000000 \<le> c" by simp
  from true_divide_million [OF big] assms have "true_divide c 1000000 = Inl OverflowError"
    by auto
  with big show ?thesis by (simp add: format_token_count_def)
qed

lemma format_token_count_examples_below:
  "format_token_count 999 = Inr ''999''"
  "format_token_count 1000 = Inr ''1k''"
  "format_token_count 1999 = Inr ''1k''"
  by (simp_all add: format_token_count_def str_int_def str_nat.simps digit_char_def)

lemma round_half_even_of_int: "round_half_even (of_int n) = n"
  by (simp add: round_half_even_def)

lemma true_divide_self:
  assumes "0 < a"
  shows "true_divide a a = Inr 1"
proof -
  have e: "binary_exponent a a = 0"
    using assms by (simp add: binary_exponent_def)
  have "(1 :: rat) / 2 powi (- 52) = of_int (2 ^ 52)"
    by (simp add: power_int_minus)
  then have "round_half_even ((1 :: rat) / 2 powi (- 52)) = 2 ^ 52"
    by (simp only: round_half_even_of_int)
  then have "of_int (round_half_even ((1 :: rat) / 2 powi (- 52))) * (2 :: rat) powi (- 52) = 1"
    by (simp add: power_int_minus)
  then show ?thesis
    using assms by (simp add: true_divide_def e Let_def)
qed

lemma format_token_count_example_million:
  "format_token_count 1000000 = Inr ''1.0M''"
proof -
  have "round_half_even (10 :: rat) = 10"
    using round_half_even_of_int [of 10] by simp
  then have "format_1f 1 = ''1.0''"
    by (simp add: format_1f_def str_nat.simps digit_char_def)
  then show ?thesis
    by (simp add: format_token_count_def true_divide_self)
qed

lemmas format_token_count_examples =
  format_token_count_examples_below format_token_count_example_million

text \<open>
  Claim C3, as the code has it. For every count \<open>c\<close> with \<open>0 \<le> c\<close> whose quotient by a
  million is still a finite float, that is \<open>c < (2 ^ 1024 - 2 ^ 970) * 1000000\<close>: from a
  million on the formatter returns a figure with one decimal and the suffix \<^verbatim>\<open>M\<close>, whose
  value lies within a twentieth, and the rounding error of the float, of \<open>c / 1000000\<close>;
  from a thousand up to a million the number of whole thousands (the quotient of the
  integer division, so truncated) with the suffix \<^verbatim>\<open>k\<close>; below a thousand the decimal
  digits of \<open>c\<close>. The examples of the specification are instances.
\<close>

theorem format_token_count_bands:
  assumes "0 \<le> c" and "c < (2 ^ 1024 - 2 ^ 970) * 1000000"
  shows "(1000000 \<le> c \<longrightarrow>
           (\<exists>n. format_token_count c =
                   Inr (str_nat (n div 10) @ ''.'' @ [digit_char (n mod 10)] @ ''M'') \<and>
                 \<bar>of_nat n / 10 - of_int c / 1000000\<bar> \<le> (1 / 20 + of_int c / 1000000 / 2 ^ 53 :: rat))) \<and>
         (1000 \<le> c \<and> c < 1000000 \<longrightarrow>
            format_token_count c = Inr (str_nat (nat (c div 1000)) @ ''k'')) \<and>
         (c < 1000 \<longrightarrow> format_token_count c = Inr (str_nat (nat c))) \<and>
         format_token_count 999 = Inr ''999'' \<and>
         format_token_count 1000 = Inr ''1k'' \<and>
         format_token_count 1999 = Inr ''1k'' \<and>
         format_token_count 1000000 = Inr ''1.0M''"
proof -
  have m: "1000000 \<le> c \<longrightarrow>
           (\<exists>n. format_token_count c =
                   Inr (str_nat (n div 10) @ ''.'' @ [digit_char (n mod 10)] @ ''M'') \<and>
                 \<bar>of_nat n / 10 - of_int c / 1000000\<bar> \<le> (1 / 20 + of_int c / 1000000 / 2 ^ 53 :: rat))"
    using format_token_count_millions [OF _ assms(2)] by blast
  have k: "1000 \<le> c \<and> c < 1000000 \<longrightarrow>
            format_token_count c = Inr (str_nat (nat (c div 1000)) @ ''k'')"
    by (auto simp: format_token_count_def str_int_def)
  have u: "c < 1000 \<longrightarrow> format_token_count c = Inr (str_nat (nat c))"
    using assms(1) by (simp add: format_token_count_def str_int_def)
  from m k u format_token_count_examples show ?thesis by blast
qed

theorem format_token_count_bands_witness:
  "(0::int) \<le> 1250000 \<and> (1250000::int) < (2 ^ 1024 - 2 ^ 970) * 1000000 \<and>
   (\<exists>n. format_token_count 1250000 =
           Inr (str_nat (n div 10) @ ''.'' @ [digit_char (n mod 10)] @ ''M'') \<and>
         \<bar>of_nat n / 10 - of_int 1250000 / 1000000\<bar> \<le> (1 / 20 + of_int 1250000 / 1000000 / 2 ^ 53 :: rat)) \<and>
   format_token_count 482999 = Inr (str_nat 482 @ ''k'')"
proof -
  have a: "(0::int) \<le> 1250000" "(0::int) \<le> 482999" by simp_all
  have b: "(1250000::int) < (2 ^ 1024 - 2 ^ 970) * 1000000"
    "(482999::int) < (2 ^ 1024 - 2 ^ 970) * 1000000" by simp_all
  from format_token_count_bands [OF a(1) b(1)] format_token_count_bands [OF a(2) b(2)] a b
  show ?thesis by simp
qed

text \<open>
  Not every count is formatted: the true division raises \<^verbatim>\<open>OverflowError\<close> when the
  quotient is too large for a float.
\<close>

theorem format_token_count_overflow_counterexample:
  "format_token_count (10 ^ 315) = Inl OverflowError"
  by (rule format_token_count_overflow) simp

subsection \<open>Resolving the version\<close>

text \<open>
  Claim C7 says that version resolution never raises. It does when the remote URL names
  the host and holds no \<^verbatim>\<open>/\<close>: the URL has one part only, and \<^verbatim>\<open>parts[1]\<close> raises
  \<^verbatim>\<open>IndexError\<close> outside the inner \<^verbatim>\<open>try\<close>, past the handler for \<^verbatim>\<open>CalledProcessError\<close>.
  Here \<^verbatim>\<open>git\<close> answers with such a URL.
\<close>

theorem get_github_version_index_error:
  "get_github_version
     (stub_env (Completed 0 [] []) (Completed 0 (''git@github.com:repo.git'' @ [CHR 0x0A]) [])
        (Completed 0 ''1000'' []) JNull)
     ''/src/repo1'' (example_state []) =
   (Inl IndexError, example_state [])"
  by (simp add: get_github_version_def stub_env_def stub_run_def strip_def is_space_def
      endswith_def startswith_def example_state_def)

subsection \<open>Retention cleaning\<close>

subsubsection \<open>Grouping\<close>

lemma split_char_head: "\<exists>rest. split_char sep s = takeWhile (\<lambda>c. c \<noteq> sep) s # rest"
  by (induction s) (auto split: list.splits)

lemma group_step_key: "group_step gs f = add_to_group (repo_key f) f gs"
proof -
  obtain rest where "split_char CHR ''_'' (stem (path_name f)) = repo_key f # rest"
    using split_char_head [of "CHR ''_''" "stem (path_name f)"] by (auto simp: repo_key_def)
  then show ?thesis by (simp add: group_step_def)
qed

lemma add_to_group_keys:
  "map fst (add_to_group r f gs) = (if r \<in> set (map fst gs) then map fst gs else map fst gs @ [r])"
  by (induction gs) (auto simp: rev_image_eqI)

lemma add_to_group_lookup:
  "map_of (add_to_group r f gs) =
     (map_of gs)(r \<mapsto> (case map_of gs r of None \<Rightarrow> [f] | Some fl \<Rightarrow> fl @ [f]))"
  by (induction gs) (auto simp: fun_eq_iff)

lemma add_to_group_distinct:
  "distinct (map fst gs) \<Longrightarrow> distinct (map fst (add_to_group r f gs))"
  by (simp add: add_to_group_keys)

lemma foldl_group_step:
  assumes "distinct (map fst gs)"
  shows "distinct (map fst (foldl group_step gs ls)) \<and>
         (\<forall>key. map_of (foldl group_step gs ls) key =
            (if filter (\<lambda>p. repo_key p = key) ls = [] then map_of gs key
             else Some ((case map_of gs key of None \<Rightarrow> [] | Some fl \<Rightarrow> fl) @
                        filter (\<lambda>p. repo_key p = key) ls)))"
  using assms
proof (induction ls arbitrary: gs)
  case Nil
  then show ?case by simp
next
  case (Cons f ls)
  have d: "distinct (map fst (group_step gs f))"
    using Cons.prems by (simp add: group_step_key add_to_group_distinct)
  from Cons.IH [OF d] show ?case
    by (auto simp: group_step_key add_to_group_lookup split: option.splits)
qed

lemma group_files_lookup:
  "map_of (group_files ls) key =
     (if filter (\<lambda>p. repo_key p = key) ls = [] then None
      else Some (filter (\<lambda>p. repo_key p = key) ls))"
  using foldl_group_step [of "[]" ls] by (simp add: group_files_def)

lemma group_files_distinct: "distinct (map fst (group_files ls))"
  using foldl_group_step [of "[]" ls] by (simp add: group_files_def)

lemma group_files_member:
  assumes "(key, fl) \<in> set (group_files ls)"
  shows "fl = filter (\<lambda>p. repo_key p = key) ls"
proof -
  from assms group_files_distinct have "map_of (group_files ls) key = Some fl"
    by simp
  then show ?thesis by (simp add: group_files_lookup split: if_splits)
qed


subsubsection \<open>Files and deletion\<close>

lemma delete_as_filter: "AList.delete p fs = filter (\<lambda>entry. fst entry \<notin> {p}) fs"
  by (induction fs) auto

lemma map_of_filter_keys:
  "map_of (filter (\<lambda>entry. fst entry \<notin> D) fs) p = (if p \<in> D then None else map_of fs p)"
  by (induction fs) auto

lemma filter_filter_keys:
  "filter (\<lambda>entry. fst entry \<notin> B) (filter (\<lambda>entry. fst entry \<notin> A) fs) =
   filter (\<lambda>entry. fst entry \<notin> A \<union> B) (fs :: filesystem)"
  by (induction fs) auto

lemma mtime_of_filter_keys:
  "p \<notin> D \<Longrightarrow> mtime_of (filter (\<lambda>entry. fst entry \<notin> D) fs) p = mtime_of fs p"
  by (simp add: mtime_of_def map_of_filter_keys)

lemma stat_all_present:
  assumes "set ps \<subseteq> fst ` set fs"
  shows "stat_all fs ps = Inr (map (\<lambda>p. (mtime_of fs p, p)) ps)"
  using assms
proof (induction ps)
  case Nil
  then show ?case by simp
next
  case (Cons p ps)
  then obtain f where "map_of fs p = Some f"
    by (cases "map_of fs p") (auto simp: map_of_eq_None_iff)
  with Cons show ?case by (simp add: mtime_of_def)
qed

lemma stat_all_keeps_paths:
  "stat_all fs ps = Inr keyed \<Longrightarrow> map snd keyed = ps"
  by (induction ps arbitrary: keyed) (auto split: option.splits sum.splits)

lemma sort_newest_first_present:
  "set ps \<subseteq> fst ` set fs \<Longrightarrow> sort_newest_first fs ps = Inr (newest_first fs ps)"
  by (simp add: sort_newest_first_def stat_all_present newest_first_def)

lemma mset_newest_first: "mset (newest_first fs ps) = mset ps"
  by (simp add: newest_first_def image_mset.compositionality comp_def)

lemma set_newest_first: "set (newest_first fs ps) = set ps"
  using mset_newest_first [of fs ps] by (metis set_mset_mset)

lemma distinct_newest_first: "distinct (newest_first fs ps) = distinct ps"
  using mset_newest_first [of fs ps] by (metis mset_eq_imp_distinct_iff)

lemma length_newest_first: "length (newest_first fs ps) = length ps"
  using mset_newest_first [of fs ps] by (metis size_mset)

lemma sorted_newest_first:
  "sorted_wrt (\<lambda>a b. mtime_of fs b \<le> mtime_of fs a) (newest_first fs ps)"
proof -
  define keyed where "keyed = sort_key fst (rev (map (\<lambda>p. (mtime_of fs p, p)) ps))"
  have keys: "\<forall>x \<in> set keyed. fst x = mtime_of fs (snd x)"
    by (auto simp: keyed_def)
  have "sorted (map fst keyed)" by (simp add: keyed_def)
  then have "sorted_wrt (\<lambda>a b. fst a \<le> fst b) keyed"
    by (simp add: sorted_map)
  then have "sorted_wrt (\<lambda>a b. fst b \<le> fst a) (rev keyed)"
    by (simp add: sorted_wrt_rev)
  then have "sorted_wrt (\<lambda>a b. mtime_of fs (snd b) \<le> mtime_of fs (snd a)) (rev keyed)"
  proof (rule sorted_wrt_mono_rel [rotated])
    fix x y
    assume "x \<in> set (rev keyed)" "y \<in> set (rev keyed)" "fst y \<le> fst x"
    with keys show "mtime_of fs (snd y) \<le> mtime_of fs (snd x)" by simp
  qed
  then show ?thesis
    by (simp add: newest_first_def keyed_def sorted_wrt_map)
qed

lemma sort_newest_first_subset:
  "sort_newest_first fs ps = Inr sorted_files \<Longrightarrow> set sorted_files = set ps"
proof -
  assume a: "sort_newest_first fs ps = Inr sorted_files"
  then obtain keyed where k: "stat_all fs ps = Inr keyed"
    and s: "sorted_files = map snd (rev (sort_key fst (rev keyed)))"
    by (auto simp: sort_newest_first_def split: sum.splits)
  from stat_all_keeps_paths [OF k] have "set ps = snd ` set keyed" by (metis set_map)
  with s show ?thesis by simp
qed

lemma set_slice_from: "set (slice_from k xs) \<subseteq> set xs"
  by (auto simp: slice_from_def dest: in_set_dropD)


lemma keys_filter_keys:
  "fst ` set (filter (\<lambda>entry. fst entry \<notin> D) fs) = fst ` set fs - D"
  by auto

lemma newest_first_cong:
  "(\<And>p. p \<in> set ps \<Longrightarrow> mtime_of fs1 p = mtime_of fs2 p) \<Longrightarrow>
   newest_first fs1 ps = newest_first fs2 ps"
  by (simp add: newest_first_def cong: map_cong)

subsubsection \<open>The removal loop\<close>

lemma remove_files_frame:
  "remove_files ps (st, r, s) = (res, st', r', s') \<Longrightarrow>
   \<exists>D. D \<subseteq> set ps \<and> files st' = filter (\<lambda>entry. fst entry \<notin> D) (files st) \<and>
       config st' = config st \<and> heap st' = heap st"
proof (induction ps arbitrary: st r s)
  case Nil
  then have "files st' = filter (\<lambda>entry. fst entry \<notin> {}) (files st)" by simp
  with Nil show ?case by auto
next
  case (Cons f ps)
  show ?case
  proof (cases "map_of (files st) f")
    case None
    with Cons.prems have "st' = st" by simp
    then have "files st' = filter (\<lambda>entry. fst entry \<notin> {}) (files st)" by simp
    with \<open>st' = st\<close> show ?thesis by blast
  next
    case (Some entry)
    define st1 where "st1 = (say [Msg_Removing (path_name f) (length (content entry))] st)
        \<lparr>files := AList.delete f (files st)\<rparr>"
    from Some Cons.prems have
      "remove_files ps (st1, r + 1, s + length (content entry)) = (res, st', r', s')"
      by (simp add: unlink_def exists_def say_def st1_def Let_def)
    from Cons.IH [OF this] obtain D where
      D: "D \<subseteq> set ps" "files st' = filter (\<lambda>entry. fst entry \<notin> D) (files st1)"
        "config st' = config st1" "heap st' = heap st1"
      by blast
    have "files st' = filter (\<lambda>entry. fst entry \<notin> {f} \<union> D) (files st)"
      using D(2) by (simp add: st1_def delete_as_filter filter_filter_keys)
    moreover have "{f} \<union> D \<subseteq> set (f # ps)" using D(1) by auto
    moreover have "config st' = config st" "heap st' = heap st"
      using D(3,4) by (simp_all add: st1_def say_def)
    ultimately show ?thesis by blast
  qed
qed

lemma remove_files_all:
  assumes "distinct ps" and "set ps \<subseteq> fst ` set (files st)"
  shows "\<exists>st' r' s'. remove_files ps (st, r, s) = (Inr (), st', r', s') \<and>
           files st' = filter (\<lambda>entry. fst entry \<notin> set ps) (files st) \<and>
           config st' = config st \<and> heap st' = heap st"
  using assms
proof (induction ps arbitrary: st r s)
  case Nil
  have "files st = filter (\<lambda>entry. fst entry \<notin> set []) (files st)" by simp
  then show ?case by simp
next
  case (Cons f ps)
  from Cons.prems obtain entry where e: "map_of (files st) f = Some entry"
    by (cases "map_of (files st) f") (auto simp: map_of_eq_None_iff)
  define st1 where "st1 = (say [Msg_Removing (path_name f) (length (content entry))] st)
      \<lparr>files := AList.delete f (files st)\<rparr>"
  have step: "remove_files (f # ps) (st, r, s) =
      remove_files ps (st1, r + 1, s + length (content entry))"
    using e by (simp add: unlink_def exists_def say_def st1_def Let_def)
  have fs1: "files st1 = filter (\<lambda>entry. fst entry \<notin> {f}) (files st)"
    by (simp add: st1_def delete_as_filter)
  have "set ps \<subseteq> fst ` set (files st1)"
    using Cons.prems unfolding fs1 keys_filter_keys by auto
  with Cons.prems Cons.IH [of st1 "r + 1" "s + length (content entry)"] obtain st' r' s' where
    r: "remove_files ps (st1, r + 1, s + length (content entry)) = (Inr (), st', r', s')"
      "files st' = filter (\<lambda>entry. fst entry \<notin> set ps) (files st1)"
      "config st' = config st1" "heap st' = heap st1"
    by auto
  have "files st' = filter (\<lambda>entry. fst entry \<notin> set (f # ps)) (files st)"
    using r(2) by (simp add: fs1 filter_filter_keys)
  moreover have "config st' = config st" "heap st' = heap st"
    using r(3,4) by (simp_all add: st1_def say_def)
  ultimately show ?case using step r(1) by simp
qed

subsubsection \<open>The loop over the groups\<close>

lemma clean_groups_frame:
  "clean_groups k gs (st, r, s) = (res, st', r', s') \<Longrightarrow>
   \<exists>D. D \<subseteq> set (concat (map snd gs)) \<and>
       files st' = filter (\<lambda>entry. fst entry \<notin> D) (files st) \<and>
       config st' = config st \<and> heap st' = heap st"
proof (induction gs arbitrary: st r s)
  case Nil
  then have "files st' = filter (\<lambda>entry. fst entry \<notin> {}) (files st)" by simp
  with Nil show ?case by auto
next
  case (Cons g gs)
  obtain key fl where g: "g = (key, fl)" by (cases g)
  show ?case
  proof (cases "sort_newest_first (files st) fl")
    case (Inl er)
    with Cons.prems g have "st' = st" by simp
    then have "files st' = filter (\<lambda>entry. fst entry \<notin> {}) (files st)" by simp
    with \<open>st' = st\<close> show ?thesis by blast
  next
    case (Inr sorted_files)
    obtain res1 st1 r1 s1 where
      rm: "remove_files (slice_from k sorted_files) (st, r, s) = (res1, st1, r1, s1)"
      by (metis prod_cases4)
    from remove_files_frame [OF rm] obtain D1 where
      D1: "D1 \<subseteq> set (slice_from k sorted_files)"
        "files st1 = filter (\<lambda>entry. fst entry \<notin> D1) (files st)"
        "config st1 = config st" "heap st1 = heap st"
      by blast
    have D1fl: "D1 \<subseteq> set fl"
      using D1(1) set_slice_from [of k sorted_files] sort_newest_first_subset [OF Inr] by auto
    show ?thesis
    proof (cases res1)
      case (Inl er)
      with Cons.prems g Inr rm have "st' = st1" by simp
      with D1 D1fl g show ?thesis by auto
    next
      case (Inr u)
      with Cons.prems g \<open>sort_newest_first (files st) fl = Inr sorted_files\<close> rm
      have "clean_groups k gs (st1, r1, s1) = (res, st', r', s')" by simp
      from Cons.IH [OF this] obtain D2 where
        D2: "D2 \<subseteq> set (concat (map snd gs))"
          "files st' = filter (\<lambda>entry. fst entry \<notin> D2) (files st1)"
          "config st' = config st1" "heap st' = heap st1"
        by blast
      have "files st' = filter (\<lambda>entry. fst entry \<notin> D1 \<union> D2) (files st)"
        using D2(2) D1(2) by (simp add: filter_filter_keys)
      moreover have "D1 \<union> D2 \<subseteq> set (concat (map snd (g # gs)))"
        using D1fl D2(1) g by auto
      ultimately show ?thesis using D1(3,4) D2(3,4) by (metis)
    qed
  qed
qed

lemma clean_groups_all:
  assumes "distinct (concat (map snd gs))"
    and "set (concat (map snd gs)) \<subseteq> fst ` set (files st)"
  shows "\<exists>st' r' s'. clean_groups k gs (st, r, s) = (Inr (), st', r', s') \<and>
           files st' = filter (\<lambda>entry. fst entry \<notin> set (doomed k (files st) gs)) (files st) \<and>
           config st' = config st \<and> heap st' = heap st"
  using assms
proof (induction gs arbitrary: st r s)
  case Nil
  have "files st = filter (\<lambda>entry. fst entry \<notin> set (doomed k (files st) [])) (files st)"
    by (simp add: doomed_def)
  then show ?case by simp
next
  case (Cons g gs)
  obtain key fl where g: "g = (key, fl)" by (cases g)
  define gone where "gone = slice_from k (newest_first (files st) fl)"
  have fl: "distinct fl" "set fl \<subseteq> fst ` set (files st)"
    using Cons.prems g by auto
  have sorted: "sort_newest_first (files st) fl = Inr (newest_first (files st) fl)"
    using fl(2) by (rule sort_newest_first_present)
  have gone_fl: "set gone \<subseteq> set fl"
    using set_slice_from [of k "newest_first (files st) fl"]
    by (simp add: gone_def set_newest_first)
  have "distinct gone"
    using fl(1) by (simp add: gone_def slice_from_def distinct_newest_first)
  moreover have "set gone \<subseteq> fst ` set (files st)" using gone_fl fl(2) by blast
  ultimately obtain st1 r1 s1 where
    rm: "remove_files gone (st, r, s) = (Inr (), st1, r1, s1)"
      "files st1 = filter (\<lambda>entry. fst entry \<notin> set gone) (files st)"
      "config st1 = config st" "heap st1 = heap st"
    using remove_files_all [of gone st r s] by blast
  have disjoint: "set fl \<inter> set (concat (map snd gs)) = {}"
    using Cons.prems(1) g by auto
  have rest: "distinct (concat (map snd gs))"
    "set (concat (map snd gs)) \<subseteq> fst ` set (files st1)"
    using Cons.prems g gone_fl disjoint unfolding rm(2) keys_filter_keys by auto
  from Cons.IH [OF rest, of r1 s1] obtain st' r' s' where
    ih: "clean_groups k gs (st1, r1, s1) = (Inr (), st', r', s')"
      "files st' = filter (\<lambda>entry. fst entry \<notin> set (doomed k (files st1) gs)) (files st1)"
      "config st' = config st1" "heap st' = heap st1"
    by blast
  have same: "doomed k (files st1) gs = doomed k (files st) gs"
  proof -
    have "newest_first (files st1) (snd x) = newest_first (files st) (snd x)"
      if "x \<in> set gs" for x
    proof (rule newest_first_cong)
      fix p assume "p \<in> set (snd x)"
      with that have "p \<in> set (concat (map snd gs))" by auto
      with disjoint gone_fl have "p \<notin> set gone" by auto
      then show "mtime_of (files st1) p = mtime_of (files st) p"
        unfolding rm(2) by (rule mtime_of_filter_keys)
    qed
    then show ?thesis by (simp add: doomed_def cong: map_cong)
  qed
  have both: "doomed k (files st) (g # gs) = gone @ doomed k (files st) gs"
    by (simp add: doomed_def g gone_def)
  have "files st' = filter (\<lambda>entry. fst entry \<notin> set (doomed k (files st) gs)) (files st1)"
    using ih(2) by (simp only: same)
  then have "files st' = filter (\<lambda>entry. fst entry \<notin> set (doomed k (files st) (g # gs))) (files st)"
    by (simp add: both rm(2) filter_filter_keys)
  moreover have "clean_groups k (g # gs) (st, r, s) = (Inr (), st', r', s')"
    using sorted rm(1) ih(1) by (simp add: g gone_def)
  ultimately show ?case using ih(3,4) rm(3,4) by simp
qed


subsubsection \<open>The whole cleaner\<close>

lemma glob_md_filter_keys:
  "glob_md dir (filter (\<lambda>entry. fst entry \<notin> D) fs) = filter (\<lambda>p. p \<notin> D) (glob_md dir fs)"
  by (induction fs) (auto simp: glob_md_def)

lemma glob_md_subset: "set (glob_md dir fs) \<subseteq> fst ` set fs"
  by (auto simp: glob_md_def)

lemma glob_md_entries: "p \<in> set (glob_md dir fs) \<Longrightarrow> md_entry dir p"
  by (simp add: glob_md_def)

lemma glob_md_distinct: "distinct (map fst fs) \<Longrightarrow> distinct (glob_md dir fs)"
  by (simp add: glob_md_def)

lemma groups_concat_subset:
  assumes "\<forall>g \<in> set gs. set (snd g) \<subseteq> A"
  shows "set (concat (map snd gs)) \<subseteq> A"
  using assms by auto

lemma groups_concat_distinct:
  assumes "distinct (map fst gs)"
    and "\<forall>g \<in> set gs. distinct (snd g) \<and> (\<forall>p \<in> set (snd g). repo_key p = fst g)"
  shows "distinct (concat (map snd gs))"
  using assms
proof (induction gs)
  case Nil
  then show ?case by simp
next
  case (Cons g gs)
  have "set (snd g) \<inter> set (concat (map snd gs)) = {}"
  proof (rule ccontr)
    assume "set (snd g) \<inter> set (concat (map snd gs)) \<noteq> {}"
    then obtain p g' where p: "p \<in> set (snd g)" "g' \<in> set gs" "p \<in> set (snd g')"
      by auto
    with Cons.prems(2) have "repo_key p = fst g" "repo_key p = fst g'" by auto
    then have "fst g \<in> fst ` set gs" using p(2) by (metis imageI)
    with Cons.prems(1) show False by simp
  qed
  with Cons show ?case by simp
qed

lemma group_files_concat:
  assumes "distinct ls"
  shows "distinct (concat (map snd (group_files ls)))"
    and "set (concat (map snd (group_files ls))) \<subseteq> set ls"
proof -
  have each: "snd g = filter (\<lambda>p. repo_key p = fst g) ls" if "g \<in> set (group_files ls)" for g
    using that group_files_member [of "fst g" "snd g" ls] by simp
  show "distinct (concat (map snd (group_files ls)))"
  proof (rule groups_concat_distinct [OF group_files_distinct], rule ballI)
    fix g assume "g \<in> set (group_files ls)"
    from each [OF this] assms
    show "distinct (snd g) \<and> (\<forall>p \<in> set (snd g). repo_key p = fst g)" by simp
  qed
  show "set (concat (map snd (group_files ls))) \<subseteq> set ls"
  proof (rule groups_concat_subset, rule ballI)
    fix g assume "g \<in> set (group_files ls)"
    from each [OF this] have "set (snd g) = set (filter (\<lambda>p. repo_key p = fst g) ls)" by simp
    then show "set (snd g) \<subseteq> set ls" by auto
  qed
qed

lemma clean_old_result:
  assumes "distinct (map fst (files st))"
  shows "\<exists>st'. clean_old m k st = (Inr (), st') \<and>
           files st' = filter (\<lambda>entry. fst entry \<notin>
              set (doomed k (files st) (group_files (glob_md (output_dir m) (files st))))) (files st) \<and>
           config st' = config st \<and> heap st' = heap st"
proof -
  define st0 where "st0 = say [Msg_Cleaning k] st"
  define gs where "gs = group_files (glob_md (output_dir m) (files st0))"
  have f0: "files st0 = files st" "config st0 = config st" "heap st0 = heap st"
    by (simp_all add: st0_def say_def)
  have ls: "distinct (glob_md (output_dir m) (files st0))"
    using assms by (simp add: f0 glob_md_distinct)
  have "distinct (concat (map snd gs))"
    unfolding gs_def using ls by (rule group_files_concat)
  moreover have "set (concat (map snd gs)) \<subseteq> fst ` set (files st0)"
    unfolding gs_def using group_files_concat(2) [OF ls] glob_md_subset by blast
  ultimately obtain st1 r1 s1 where
    c: "clean_groups k gs (st0, 0, 0) = (Inr (), st1, r1, s1)"
      "files st1 = filter (\<lambda>entry. fst entry \<notin> set (doomed k (files st0) gs)) (files st0)"
      "config st1 = config st0" "heap st1 = heap st0"
    using clean_groups_all [of gs st0 k 0 0] by blast
  have "clean_old m k st = (Inr (), say [Msg_Removed r1 s1] st1)"
    using c(1) by (simp add: clean_old_def Let_def st0_def [symmetric] gs_def [symmetric])
  moreover have "files (say [Msg_Removed r1 s1] st1) =
      filter (\<lambda>entry. fst entry \<notin>
        set (doomed k (files st) (group_files (glob_md (output_dir m) (files st))))) (files st)"
    using c(2) by (simp add: say_def gs_def f0)
  moreover have "config (say [Msg_Removed r1 s1] st1) = config st"
    "heap (say [Msg_Removed r1 s1] st1) = heap st"
    using c(3,4) by (simp_all add: say_def f0)
  ultimately show ?thesis by simp
qed

lemma doomed_subset: "set (doomed k fs gs) \<subseteq> set (concat (map snd gs))"
proof
  fix p assume "p \<in> set (doomed k fs gs)"
  then obtain g where g: "g \<in> set gs" "p \<in> set (slice_from k (newest_first fs (snd g)))"
    by (auto simp: doomed_def)
  from g(2) set_slice_from [of k "newest_first fs (snd g)"] have "p \<in> set (snd g)"
    by (auto simp: set_newest_first)
  with g(1) show "p \<in> set (concat (map snd gs))" by auto
qed

lemma doomed_by_key:
  "{p \<in> set (doomed k fs (group_files ls)). repo_key p = key} =
   set (slice_from k (newest_first fs (filter (\<lambda>p. repo_key p = key) ls)))"
proof (intro equalityI subsetI)
  fix p assume "p \<in> {p \<in> set (doomed k fs (group_files ls)). repo_key p = key}"
  then obtain g where g: "g \<in> set (group_files ls)"
    "p \<in> set (slice_from k (newest_first fs (snd g)))" and pk: "repo_key p = key"
    by (auto simp: doomed_def)
  have sg: "snd g = filter (\<lambda>p. repo_key p = fst g) ls"
    using g(1) group_files_member [of "fst g" "snd g" ls] by simp
  from g(2) set_slice_from [of k "newest_first fs (snd g)"] have "p \<in> set (snd g)"
    by (auto simp: set_newest_first)
  with sg have "repo_key p = fst g" by (metis (mono_tags, lifting) mem_Collect_eq set_filter)
  with pk sg g(2) show "p \<in> set (slice_from k (newest_first fs (filter (\<lambda>p. repo_key p = key) ls)))"
    by simp
next
  fix p assume p: "p \<in> set (slice_from k (newest_first fs (filter (\<lambda>p. repo_key p = key) ls)))"
  with set_slice_from [of k "newest_first fs (filter (\<lambda>p. repo_key p = key) ls)"]
  have inn: "p \<in> set (filter (\<lambda>p. repo_key p = key) ls)"
    by (auto simp: set_newest_first)
  then have ne: "filter (\<lambda>p. repo_key p = key) ls \<noteq> []"
    by (metis empty_iff empty_set)
  then have "map_of (group_files ls) key = Some (filter (\<lambda>p. repo_key p = key) ls)"
    by (simp add: group_files_lookup)
  then have "(key, filter (\<lambda>p. repo_key p = key) ls) \<in> set (group_files ls)"
    by (rule map_of_SomeD)
  with p have "p \<in> set (doomed k fs (group_files ls))"
    by (force simp: doomed_def)
  with inn show "p \<in> {p \<in> set (doomed k fs (group_files ls)). repo_key p = key}" by simp
qed

lemma filter_not_in_drop:
  assumes "distinct xs"
  shows "filter (\<lambda>p. p \<notin> set (drop n xs)) xs = take n xs"
proof -
  have disj: "set (take n xs) \<inter> set (drop n xs) = {}"
    using assms by (rule set_take_disj_set_drop_if_distinct) simp
  have "filter (\<lambda>p. p \<notin> set (drop n xs)) (take n xs) = take n xs"
    using disj by (auto simp: filter_id_conv)
  moreover have "filter (\<lambda>p. p \<notin> set (drop n xs)) (drop n xs) = []"
    by (simp add: filter_empty_conv)
  ultimately have "filter (\<lambda>p. p \<notin> set (drop n xs)) (take n xs @ drop n xs) = take n xs"
    by (simp only: filter_append append_Nil2)
  then show ?thesis by (simp only: append_take_drop_id)
qed

lemma slice_from_nonneg: "0 \<le> k \<Longrightarrow> slice_from k xs = drop (nat k) xs"
  by (simp add: slice_from_def)

lemma clean_old_nothing_to_do:
  assumes "distinct (map fst (files st))" and "0 \<le> k"
    and "\<And>key. length (filter (\<lambda>p. repo_key p = key) (glob_md (output_dir m) (files st))) \<le> nat k"
  shows "\<exists>st'. clean_old m k st = (Inr (), st') \<and> files st' = files st"
proof -
  define ls where "ls = glob_md (output_dir m) (files st)"
  have "slice_from k (newest_first (files st) (snd g)) = []" if "g \<in> set (group_files ls)" for g
  proof -
    have "snd g = filter (\<lambda>p. repo_key p = fst g) ls"
      using that group_files_member [of "fst g" "snd g" ls] by simp
    with assms(3) [of "fst g"] have "length (snd g) \<le> nat k" by (simp add: ls_def)
    then show ?thesis
      using assms(2) by (simp add: slice_from_nonneg length_newest_first)
  qed
  then have "doomed k (files st) (group_files ls) = []"
    by (simp add: doomed_def)
  with clean_old_result [OF assms(1), of m k] show ?thesis
    by (auto simp: ls_def)
qed

lemma survivors_per_key:
  assumes "distinct ls" and that: "0 \<le> k"
  shows "length (filter (\<lambda>p. repo_key p = key)
           (filter (\<lambda>p. p \<notin> set (doomed k fs (group_files ls))) ls)) \<le> nat k"
proof -
  define grp where "grp = filter (\<lambda>p. repo_key p = key) ls"
  define order where "order = newest_first fs grp"
  have gone: "{p \<in> set (doomed k fs (group_files ls)). repo_key p = key} = set (drop (nat k) order)"
    using that by (simp add: doomed_by_key order_def grp_def slice_from_nonneg)
  have "filter (\<lambda>p. repo_key p = key) (filter (\<lambda>p. p \<notin> set (doomed k fs (group_files ls))) ls) =
        filter (\<lambda>p. p \<notin> set (doomed k fs (group_files ls))) grp"
    by (simp add: grp_def conj_commute)
  also have "\<dots> = filter (\<lambda>p. p \<notin> set (drop (nat k) order)) grp"
  proof (rule filter_cong [OF refl])
    fix p assume "p \<in> set grp"
    then have "repo_key p = key" by (simp add: grp_def)
    with gone show "(p \<notin> set (doomed k fs (group_files ls))) = (p \<notin> set (drop (nat k) order))"
      by auto
  qed
  finally have eq: "filter (\<lambda>p. repo_key p = key)
       (filter (\<lambda>p. p \<notin> set (doomed k fs (group_files ls))) ls) =
     filter (\<lambda>p. p \<notin> set (drop (nat k) order)) grp" .
  have m: "mset grp = mset order" by (simp add: order_def mset_newest_first)
  have "distinct order" using assms by (simp add: order_def distinct_newest_first grp_def)
  then have t: "filter (\<lambda>p. p \<notin> set (drop (nat k) order)) order = take (nat k) order"
    by (rule filter_not_in_drop)
  have "length (filter (\<lambda>p. p \<notin> set (drop (nat k) order)) grp) =
        size (filter_mset (\<lambda>p. p \<notin> set (drop (nat k) order)) (mset grp))"
    by (metis mset_filter size_mset)
  also have "\<dots> = length (filter (\<lambda>p. p \<notin> set (drop (nat k) order)) order)"
    unfolding m by (metis mset_filter size_mset)
  also have "\<dots> \<le> nat k" by (simp add: t)
  finally show ?thesis by (simp only: eq)
qed

lemma mset_glob_md: "mset fs1 = mset fs2 \<Longrightarrow> mset (glob_md dir fs1) = mset (glob_md dir fs2)"
  by (metis glob_md_def mset_filter mset_map)

text \<open>
  Claim C9, as the code has it. For every keep-count \<open>k\<close> that is not negative and every
  file system without a path listed twice, \<open>clean_old\<close> returns and only removes files:
  what it removes are entries of the output directory matching \<^verbatim>\<open>*.md\<close>, and for each
  key the removed files of that key are exactly those past the first \<open>k\<close> in an order of
  the key's artifacts by descending modification time. Cleaning again, from any listing
  of the files that are left, removes nothing.
\<close>

theorem clean_old_keeps_newest_idempotent:
  assumes "distinct (map fst (files st))" and "0 \<le> k"
  shows "\<exists>st' gone. clean_old m k st = (Inr (), st') \<and>
           files st' = filter (\<lambda>entry. fst entry \<notin> set gone) (files st) \<and>
           set gone \<subseteq> set (glob_md (output_dir m) (files st)) \<and>
           (\<forall>key. \<exists>order. mset order = mset (members (output_dir m) (files st) key) \<and>
                   sorted_wrt (\<lambda>a b. mtime_of (files st) b \<le> mtime_of (files st) a) order \<and>
                   {p \<in> set gone. repo_key p = key} = set (drop (nat k) order)) \<and>
           (\<forall>st2. mset (files st2) = mset (files st') \<longrightarrow>
                   (\<exists>st3. clean_old m k st2 = (Inr (), st3) \<and> files st3 = files st2))"
proof -
  define ls where "ls = glob_md (output_dir m) (files st)"
  define gone where "gone = doomed k (files st) (group_files ls)"
  have dls: "distinct ls" using assms(1) by (simp add: ls_def glob_md_distinct)
  from clean_old_result [OF assms(1), of m k] obtain st' where
    st': "clean_old m k st = (Inr (), st')"
      "files st' = filter (\<lambda>entry. fst entry \<notin> set gone) (files st)"
    by (auto simp: gone_def ls_def)
  have sub: "set gone \<subseteq> set ls"
    using doomed_subset [of k "files st" "group_files ls"] group_files_concat(2) [OF dls]
    by (auto simp: gone_def)
  have per_key: "\<exists>order. mset order = mset (members (output_dir m) (files st) key) \<and>
                   sorted_wrt (\<lambda>a b. mtime_of (files st) b \<le> mtime_of (files st) a) order \<and>
                   {p \<in> set gone. repo_key p = key} = set (drop (nat k) order)" for key
  proof (intro exI conjI)
    show "mset (newest_first (files st) (members (output_dir m) (files st) key)) =
          mset (members (output_dir m) (files st) key)"
      by (rule mset_newest_first)
    show "sorted_wrt (\<lambda>a b. mtime_of (files st) b \<le> mtime_of (files st) a)
            (newest_first (files st) (members (output_dir m) (files st) key))"
      by (rule sorted_newest_first)
    show "{p \<in> set gone. repo_key p = key} =
          set (drop (nat k) (newest_first (files st) (members (output_dir m) (files st) key)))"
      using assms(2) by (simp add: gone_def doomed_by_key members_def ls_def slice_from_nonneg)
  qed
  have again: "\<exists>st3. clean_old m k st2 = (Inr (), st3) \<and> files st3 = files st2"
    if eq: "mset (files st2) = mset (files st')" for st2
  proof (rule clean_old_nothing_to_do [OF _ assms(2)])
    have "distinct (map fst (files st'))"
      using assms(1) by (simp add: st'(2) distinct_map_filter)
    moreover have "mset (map fst (files st2)) = mset (map fst (files st'))"
      using eq by (metis mset_map)
    ultimately show "distinct (map fst (files st2))"
      by (metis mset_eq_imp_distinct_iff)
  next
    fix key
    have "mset (glob_md (output_dir m) (files st2)) = mset (glob_md (output_dir m) (files st'))"
      using eq by (rule mset_glob_md)
    then have "length (filter (\<lambda>p. repo_key p = key) (glob_md (output_dir m) (files st2))) =
               length (filter (\<lambda>p. repo_key p = key) (glob_md (output_dir m) (files st')))"
      by (metis mset_filter size_mset)
    also have "glob_md (output_dir m) (files st') = filter (\<lambda>p. p \<notin> set gone) ls"
      by (simp add: st'(2) glob_md_filter_keys ls_def)
    also have "length (filter (\<lambda>p. repo_key p = key) (filter (\<lambda>p. p \<notin> set gone) ls)) \<le> nat k"
      unfolding gone_def using dls assms(2) by (rule survivors_per_key)
    finally show "length (filter (\<lambda>p. repo_key p = key) (glob_md (output_dir m) (files st2))) \<le> nat k" .
  qed
  from st' sub per_key again show ?thesis
    unfolding ls_def by blast
qed

subsubsection \<open>Examples and the frame\<close>

lemmas clean_eval = clean_old_def say_def glob_md_def md_entry_def startswith_def endswith_def
  group_files_def group_step_def path_name_def stem_def rfind_def sort_newest_first_def
  slice_from_def unlink_def exists_def example_manager_def example_state_def
  example_artifacts_def Let_def

lemma clean_old_example:
  "clean_old example_manager 1 (example_state example_artifacts) =
   (Inr (), (example_state
     [(''out/repo1_v3_2k.md'', \<lparr>content = ''third'', mtime = 3\<rparr>),
      (''out/other_latest_5k.md'', \<lparr>content = ''other'', mtime = 1\<rparr>),
      (''out/ingestion_log.json'', \<lparr>content = ''[]'', mtime = 3\<rparr>),
      (''gitingest.yaml'', \<lparr>content = ''settings: {}'', mtime = 0\<rparr>)])
     \<lparr>stdout := [Msg_Cleaning 1, Msg_Removing ''repo1_v2_1k.md'' 6,
                  Msg_Removing ''repo1_v1_1k.md'' 5, Msg_Removed 2 11]\<rparr>)"
  by (simp add: clean_eval)

theorem clean_old_keeps_newest_idempotent_witness:
  "distinct (map fst (files (example_state example_artifacts))) \<and> (0::int) \<le> 1 \<and>
   map fst (files (snd (clean_old example_manager 1 (example_state example_artifacts)))) =
     [''out/repo1_v3_2k.md'', ''out/other_latest_5k.md'', ''out/ingestion_log.json'',
      ''gitingest.yaml''] \<and>
   files (snd (clean_old example_manager 1
            (snd (clean_old example_manager 1 (example_state example_artifacts))))) =
   files (snd (clean_old example_manager 1 (example_state example_artifacts)))"
proof -
  have d: "distinct (map fst (files (example_state example_artifacts)))"
    by (simp add: example_state_def example_artifacts_def)
  from clean_old_keeps_newest_idempotent [OF d, of 1 example_manager] obtain st' where
    st': "clean_old example_manager 1 (example_state example_artifacts) = (Inr (), st')"
    and again: "\<forall>st2. mset (files st2) = mset (files st') \<longrightarrow>
           (\<exists>st3. clean_old example_manager 1 st2 = (Inr (), st3) \<and> files st3 = files st2)"
    by auto
  from again have "\<exists>st3. clean_old example_manager 1 st' = (Inr (), st3) \<and> files st3 = files st'"
    by simp
  then have "files (snd (clean_old example_manager 1 st')) = files st'" by auto
  moreover have "map fst (files st') =
     [''out/repo1_v3_2k.md'', ''out/other_latest_5k.md'', ''out/ingestion_log.json'',
      ''gitingest.yaml'']"
  proof -
    from st' have "snd (clean_old example_manager 1 (example_state example_artifacts)) = st'"
      by simp
    then show ?thesis
      unfolding clean_old_example by (auto simp: example_state_def)
  qed
  ultimately show ?thesis using d st' by simp
qed

text \<open>
  With a negative keep-count the slice \<^verbatim>\<open>files[keep_latest:]\<close> counts from the end: each
  run removes the oldest file of a group, so a second run changes the files again.
\<close>

theorem clean_old_negative_keep_counterexample:
  "map fst (files (snd (clean_old example_manager (- 1)
      (example_state [(''out/repo1_v1_1k.md'', \<lparr>content = ''first'', mtime = 1\<rparr>),
                      (''out/repo1_v2_1k.md'', \<lparr>content = ''second'', mtime = 2\<rparr>)])))) =
     [''out/repo1_v2_1k.md''] \<and>
   map fst (files (snd (clean_old example_manager (- 1)
      (snd (clean_old example_manager (- 1)
        (example_state [(''out/repo1_v1_1k.md'', \<lparr>content = ''first'', mtime = 1\<rparr>),
                        (''out/repo1_v2_1k.md'', \<lparr>content = ''second'', mtime = 2\<rparr>)])))))) = []"
  by (simp add: clean_eval)

lemma group_files_subset: "set (concat (map snd (group_files ls))) \<subseteq> set ls"
proof (rule groups_concat_subset, rule ballI)
  fix g assume "g \<in> set (group_files ls)"
  then have "snd g = filter (\<lambda>p. repo_key p = fst g) ls"
    using group_files_member [of "fst g" "snd g" ls] by simp
  then have "set (snd g) = set (filter (\<lambda>p. repo_key p = fst g) ls)" by simp
  then show "set (snd g) \<subseteq> set ls" by auto
qed

lemma log_path_not_md: "\<not> md_entry (output_dir m) (log_path m)"
  by (simp add: md_entry_def log_path_def joinpath_def endswith_def)

lemma clean_old_frame:
  "\<exists>gone. gone \<subseteq> set (glob_md (output_dir m) (files st)) \<and>
     files (snd (clean_old m k st)) = filter (\<lambda>entry. fst entry \<notin> gone) (files st) \<and>
     config (snd (clean_old m k st)) = config st \<and> heap (snd (clean_old m k st)) = heap st"
proof -
  define st0 where "st0 = say [Msg_Cleaning k] st"
  define gs where "gs = group_files (glob_md (output_dir m) (files st0))"
  have f0: "files st0 = files st" "config st0 = config st" "heap st0 = heap st"
    by (simp_all add: st0_def say_def)
  obtain res st1 r1 s1 where c: "clean_groups k gs (st0, 0, 0) = (res, st1, r1, s1)"
    by (metis prod_cases4)
  from clean_groups_frame [OF c] obtain gone where
    g: "gone \<subseteq> set (concat (map snd gs))"
      "files st1 = filter (\<lambda>entry. fst entry \<notin> gone) (files st0)"
      "config st1 = config st0" "heap st1 = heap st0"
    by blast
  have sub: "gone \<subseteq> set (glob_md (output_dir m) (files st))"
    using g(1) group_files_subset [of "glob_md (output_dir m) (files st0)"]
    by (auto simp: gs_def f0)
  have co: "clean_old m k st =
      (case clean_groups k gs (st0, 0, 0) of
         (Inl er, st1, total_removed, total_size) \<Rightarrow> (Inl er, st1)
       | (Inr u, st1, total_removed, total_size) \<Rightarrow>
           (Inr (), say [Msg_Removed total_removed total_size] st1))"
    by (simp add: clean_old_def Let_def st0_def gs_def)
  have "files (snd (clean_old m k st)) = files st1 \<and> config (snd (clean_old m k st)) = config st1
        \<and> heap (snd (clean_old m k st)) = heap st1"
    unfolding co c by (cases res) (simp_all add: say_def)
  with g sub show ?thesis by (auto simp: f0)
qed

text \<open>
  Claim C10, as the code has it. For every keep-count and every state, whether
  \<open>clean_old\<close> returns or raises, it only removes entries of the output directory matching
  \<^verbatim>\<open>*.md\<close>: every other path keeps its file, every file that is left is as it was, the
  ingestion log is unchanged, the configuration file is unchanged unless it is itself such
  an entry, and the loaded configuration and the list objects are unchanged.
\<close>

theorem clean_old_touches_only_md_entries:
  "\<exists>gone. gone \<subseteq> {p. md_entry (output_dir m) p} \<and>
     files (snd (clean_old m k st)) = filter (\<lambda>entry. fst entry \<notin> gone) (files st) \<and>
     (\<forall>p. \<not> md_entry (output_dir m) p \<longrightarrow>
          map_of (files (snd (clean_old m k st))) p = map_of (files st) p) \<and>
     (\<forall>p f. map_of (files (snd (clean_old m k st))) p = Some f \<longrightarrow> map_of (files st) p = Some f) \<and>
     map_of (files (snd (clean_old m k st))) (log_path m) = map_of (files st) (log_path m) \<and>
     (\<not> md_entry (output_dir m) (config_file m) \<longrightarrow>
        map_of (files (snd (clean_old m k st))) (config_file m) = map_of (files st) (config_file m)) \<and>
     config (snd (clean_old m k st)) = config st \<and>
     heap (snd (clean_old m k st)) = heap st"
proof -
  from clean_old_frame [of m st k] obtain gone where
    g: "gone \<subseteq> set (glob_md (output_dir m) (files st))"
      "files (snd (clean_old m k st)) = filter (\<lambda>entry. fst entry \<notin> gone) (files st)"
      "config (snd (clean_old m k st)) = config st" "heap (snd (clean_old m k st)) = heap st"
    by blast
  have md: "gone \<subseteq> {p. md_entry (output_dir m) p}"
    using g(1) glob_md_entries by blast
  have same: "map_of (files (snd (clean_old m k st))) p = map_of (files st) p"
    if "\<not> md_entry (output_dir m) p" for p
    using that md by (auto simp: g(2) map_of_filter_keys)
  have kept: "map_of (files st) p = Some f"
    if "map_of (files (snd (clean_old m k st))) p = Some f" for p f
    using that by (simp add: g(2) map_of_filter_keys split: if_splits)
  from md g(2,3,4) same kept same [OF log_path_not_md] show ?thesis
    by blast
qed

theorem clean_old_touches_only_md_entries_witness:
  "\<not> md_entry (output_dir example_manager) (config_file example_manager) \<and>
   map_of (files (snd (clean_old example_manager 1 (example_state example_artifacts))))
     ''out/ingestion_log.json'' = Some \<lparr>content = ''[]'', mtime = 3\<rparr> \<and>
   map_of (files (snd (clean_old example_manager 1 (example_state example_artifacts))))
     ''gitingest.yaml'' = Some \<lparr>content = ''settings: {}'', mtime = 0\<rparr> \<and>
   map_of (files (snd (clean_old example_manager 1 (example_state example_artifacts))))
     ''out/repo1_v1_1k.md'' = None"
proof -
  have c: "\<not> md_entry (output_dir example_manager) (config_file example_manager)"
    by (simp add: md_entry_def example_manager_def startswith_def)
  have l: "log_path example_manager = ''out/ingestion_log.json''"
    by (simp add: log_path_def joinpath_def example_manager_def)
  have y: "config_file example_manager = ''gitingest.yaml''"
    by (simp add: example_manager_def)
  have before: "map_of (files (example_state example_artifacts)) ''out/ingestion_log.json'' =
        Some \<lparr>content = ''[]'', mtime = 3\<rparr>"
    "map_of (files (example_state example_artifacts)) ''gitingest.yaml'' =
        Some \<lparr>content = ''settings: {}'', mtime = 0\<rparr>"
    by (simp_all add: example_state_def example_artifacts_def)
  from clean_old_touches_only_md_entries [of example_manager 1 "example_state example_artifacts"]
  have "map_of (files (snd (clean_old example_manager 1 (example_state example_artifacts))))
          ''out/ingestion_log.json'' = Some \<lparr>content = ''[]'', mtime = 3\<rparr>"
    and "map_of (files (snd (clean_old example_manager 1 (example_state example_artifacts))))
          ''gitingest.yaml'' = Some \<lparr>content = ''settings: {}'', mtime = 0\<rparr>"
    using c by (auto simp: l y before)
  moreover have "map_of (files (snd (clean_old example_manager 1 (example_state example_artifacts))))
     ''out/repo1_v1_1k.md'' = None"
    unfolding clean_old_example by (simp add: example_state_def)
  ultimately show ?thesis using c by simp
qed

text \<open>
  A configuration file that lies in the output directory under a name ending in
  \<^verbatim>\<open>.md\<close> is an artifact to the cleaner, and is removed with the others.
\<close>

theorem clean_old_removes_md_configuration_counterexample:
  "map_of (files (example_state [(''out/gitingest.md'', \<lparr>content = ''settings: {}'', mtime = 0\<rparr>)]))
     ''out/gitingest.md'' = Some \<lparr>content = ''settings: {}'', mtime = 0\<rparr> \<and>
   map_of (files (snd (clean_old
       \<lparr>config_file = ''out/gitingest.md'', output_dir = ''out'', token_counter = ''/bin/tc''\<rparr> 0
       (example_state [(''out/gitingest.md'', \<lparr>content = ''settings: {}'', mtime = 0\<rparr>)]))))
     ''out/gitingest.md'' = None"
  by (simp add: clean_eval)

subsection \<open>A failed ingestion\<close>

lemma read_text_benign: "read_text d fs p = Inl er \<Longrightarrow> benign er"
  by (auto simp: read_text_def benign_def split: option.splits)

lemma estimate_tokens_benign: "estimate_tokens e fs p = Inl er \<Longrightarrow> benign er"
  by (auto simp: estimate_tokens_def Let_def split: sum.splits dest: read_text_benign)

lemma count_tokens_benign: "count_tokens e m p st = (Inl er, st') \<Longrightarrow> benign er"
  by (auto simp: count_tokens_def Let_def benign_def
      split: if_splits prod.splits proc.splits list.splits option.splits sum.splits
      dest: estimate_tokens_benign read_text_benign)

lemma get_github_version_benign: "get_github_version e p st = (Inl er, st') \<Longrightarrow> benign er"
  by (auto simp: get_github_version_def Let_def benign_def
      split: if_splits prod.splits proc.splits list.splits option.splits http.splits)

lemma version_or_latest_benign: "version_or_latest e r v st = (Inl er, st') \<Longrightarrow> benign er"
  by (auto simp: version_or_latest_def benign_def
      split: option.splits prod.splits sum.splits dest: get_github_version_benign)

lemma format_token_count_benign: "format_token_count c = Inl er \<Longrightarrow> benign er"
  by (auto simp: format_token_count_def true_divide_def Let_def benign_def
      split: if_splits sum.splits)

lemma load_log_benign: "load_log e m fs = Inl er \<Longrightarrow> benign er"
  by (auto simp: load_log_def benign_def split: option.splits json.splits)

lemma record_ingest_benign:
  "record_ingest e m r p ts tk ch nf fname fpath st = (Inl er, st') \<Longrightarrow> benign er"
  by (auto simp: record_ingest_def save_ingestion_log_def get_file_hash_def Let_def benign_def
      split: option.splits prod.splits sum.splits dest: load_log_benign)

lemma rename_benign: "rename a b fs = Inl er \<Longrightarrow> benign er"
  by (auto simp: rename_def benign_def split: option.splits)

lemma ingest_try_error:
  assumes "ingest_try e m repo_name profile version timestamp temp cmd st = (Inl er, st2)"
  shows "benign er \<or>
         (\<exists>returncode out err fs1. er = CalledProcessError returncode err \<and> returncode \<noteq> 0 \<and>
            run e cmd (files st) = (Completed returncode out err, fs1) \<and> st2 = st\<lparr>files := fs1\<rparr>)"
proof (cases "run e cmd (files st)")
  case (Pair pr fs1)
  show ?thesis
  proof (cases pr)
    case Spawn_Failed
    with Pair assms show ?thesis by (simp add: ingest_try_def benign_def)
  next
    case (Completed returncode out err)
    show ?thesis
    proof (cases "returncode = 0")
      case False
      with Pair Completed assms show ?thesis by (auto simp: ingest_try_def)
    next
      case True
      with Pair Completed assms have "benign er"
        by (auto simp: ingest_try_def Let_def
            split: prod.splits sum.splits
            dest: count_tokens_benign read_text_benign version_or_latest_benign
              format_token_count_benign rename_benign record_ingest_benign)
      then show ?thesis ..
    qed
  qed
qed


lemma say_fields:
  "config (say ms st) = config st" "heap (say ms st) = heap st" "files (say ms st) = files st"
  "stdout (say ms st) = stdout st @ ms"
  by (simp_all add: say_def)

lemma log_path_not_temp: "log_path m \<noteq> temp_path e m repo_name"
proof
  assume "log_path m = temp_path e m repo_name"
  then have "last (log_path m) = last (temp_path e m repo_name)" by simp
  then show False by (simp add: log_path_def temp_path_def joinpath_def)
qed

lemma ingest_unfold:
  assumes "build_gitingest_command (config st) (heap st) repo_name (temp_path e m repo_name) profile
             = Inr (cmd, h1)"
  shows "ingest e m repo_name profile version st =
     (case ingest_try e m repo_name profile version (now e) (temp_path e m repo_name) cmd
             (say [Msg_Running cmd] ((say [Msg_Ingesting repo_name profile] st)\<lparr>heap := h1\<rparr>)) of
        (Inl (CalledProcessError returncode err), st2) \<Rightarrow>
           let st3 = say [Msg_Gitingest_Error returncode, Msg_Stderr err] st2
           in if exists (files st3) (temp_path e m repo_name) then
                (case unlink (temp_path e m repo_name) (files st3) of
                   Inl er \<Rightarrow> (Inl er, st3)
                 | Inr fs \<Rightarrow> (Inl (SystemExit 1), st3\<lparr>files := fs\<rparr>))
              else (Inl (SystemExit 1), st3)
      | outcome \<Rightarrow> outcome)"
  using assms unfolding ingest_def temp_path_def Let_def say_fields by simp

lemma ingest_failure:
  assumes b: "build_gitingest_command (config st) (heap st) repo_name (temp_path e m repo_name) profile
             = Inr (cmd, h1)"
    and r: "run e cmd (files st) = (Completed returncode out err, fs1)" and nz: "returncode \<noteq> 0"
  shows "ingest e m repo_name profile version st =
     (Inl (SystemExit 1),
      \<lparr>config = config st, heap = h1, files = AList.delete (temp_path e m repo_name) fs1,
        stdout = stdout st @ [Msg_Ingesting repo_name profile, Msg_Running cmd,
                              Msg_Gitingest_Error returncode, Msg_Stderr err]\<rparr>)"
proof -
  have t: "ingest_try e m repo_name profile version (now e) (temp_path e m repo_name) cmd
             (say [Msg_Running cmd] ((say [Msg_Ingesting repo_name profile] st)\<lparr>heap := h1\<rparr>)) =
           (Inl (CalledProcessError returncode err),
            (say [Msg_Running cmd] ((say [Msg_Ingesting repo_name profile] st)\<lparr>heap := h1\<rparr>))
              \<lparr>files := fs1\<rparr>)"
    using r nz by (simp add: ingest_try_def say_def)
  have absent: "AList.delete (temp_path e m repo_name) fs1 = fs1"
    if "map_of fs1 (temp_path e m repo_name) = None"
    using that by (simp add: map_of_eq_None_iff)
  show ?thesis
    unfolding ingest_unfold [OF b] t
    by (cases st) (auto simp: say_def exists_def unlink_def Let_def absent)
qed


lemma build_gitingest_command_benign:
  "build_gitingest_command cfg h r out p = Inl er \<Longrightarrow> benign er"
  by (auto simp: build_gitingest_command_def get_exclusions_def Let_def benign_def
      split: option.splits sum.splits prod.splits)

lemma ingest_exit_only_after_failure:
  assumes "ingest e m repo_name profile version st = (Inl (SystemExit n), st')"
  shows "n = 1 \<and> (\<exists>cmd h1 returncode out err fs1.
           build_gitingest_command (config st) (heap st) repo_name (temp_path e m repo_name) profile
             = Inr (cmd, h1) \<and>
           run e cmd (files st) = (Completed returncode out err, fs1) \<and> returncode \<noteq> 0)"
proof (cases "build_gitingest_command (config st) (heap st) repo_name (temp_path e m repo_name) profile")
  case (Inl er)
  then have "ingest e m repo_name profile version st = (Inl er, say [Msg_Ingesting repo_name profile] st)"
    unfolding ingest_def temp_path_def Let_def say_fields by simp
  with assms have "er = SystemExit n" by simp
  with build_gitingest_command_benign [OF Inl] show ?thesis by (simp add: benign_def)
next
  case (Inr built)
  obtain cmd h1 where built: "built = (cmd, h1)" by (cases built)
  define st1 where "st1 = say [Msg_Running cmd] ((say [Msg_Ingesting repo_name profile] st)\<lparr>heap := h1\<rparr>)"
  have f1: "files st1 = files st" by (simp add: st1_def say_fields)
  obtain res st2 where t: "ingest_try e m repo_name profile version (now e)
      (temp_path e m repo_name) cmd st1 = (res, st2)"
    by (cases "ingest_try e m repo_name profile version (now e) (temp_path e m repo_name) cmd st1")
  note u = ingest_unfold [OF Inr [unfolded built], of version, folded st1_def, unfolded t]
  show ?thesis
  proof (cases res)
    case (Inr v)
    with u assms show ?thesis by simp
  next
    case (Inl er)
    from ingest_try_error [OF t [unfolded Inl]] show ?thesis
    proof
      assume "benign er"
      with u Inl have "ingest e m repo_name profile version st = (Inl er, st2)"
        by (cases er) (simp_all add: benign_def)
      with assms \<open>benign er\<close> show ?thesis by (simp add: benign_def)
    next
      assume "\<exists>returncode out err fs1. er = CalledProcessError returncode err \<and> returncode \<noteq> 0 \<and>
            run e cmd (files st1) = (Completed returncode out err, fs1) \<and> st2 = st1\<lparr>files := fs1\<rparr>"
      then obtain returncode out err fs1 where
        c: "er = CalledProcessError returncode err" "returncode \<noteq> 0"
          "run e cmd (files st) = (Completed returncode out err, fs1)"
        by (auto simp: f1)
      from ingest_failure [OF Inr [unfolded built] c(3) c(2), of version] assms
      have "n = 1" by simp
      with Inr built c show ?thesis by blast
    qed
  qed
qed

text \<open>
  Claim C1, as the code has it. When the command is built and the ingestion process ends
  with a non-zero status, \<open>ingest\<close> prints the error and the standard error of the
  process, removes the temporary file if it exists and exits with status 1: the loaded
  configuration is as before (no metadata), and every file other than the temporary one,
  the log among them, is as the process left it, so no artifact is created and no log
  entry written. Conversely \<open>ingest\<close> exits only on this path. It is not the only
  path on which a run is aborted: the other exceptions pass through \<open>ingest\<close> as they are.
\<close>

theorem ingest_failure_exits:
  "(\<forall>cmd h1 returncode out err fs1.
       build_gitingest_command (config st) (heap st) repo_name (temp_path e m repo_name) profile
         = Inr (cmd, h1) \<and>
       run e cmd (files st) = (Completed returncode out err, fs1) \<and> returncode \<noteq> 0 \<longrightarrow>
       ingest e m repo_name profile version st =
         (Inl (SystemExit 1),
          \<lparr>config = config st, heap = h1, files = AList.delete (temp_path e m repo_name) fs1,
            stdout = stdout st @ [Msg_Ingesting repo_name profile, Msg_Running cmd,
                                  Msg_Gitingest_Error returncode, Msg_Stderr err]\<rparr>) \<and>
       map_of (AList.delete (temp_path e m repo_name) fs1) (temp_path e m repo_name) = None \<and>
       (\<forall>p. p \<noteq> temp_path e m repo_name \<longrightarrow>
            map_of (AList.delete (temp_path e m repo_name) fs1) p = map_of fs1 p) \<and>
       map_of (AList.delete (temp_path e m repo_name) fs1) (log_path m) = map_of fs1 (log_path m)) \<and>
   (\<forall>n st'. ingest e m repo_name profile version st = (Inl (SystemExit n), st') \<longrightarrow>
       n = 1 \<and> (\<exists>cmd h1 returncode out err fs1.
         build_gitingest_command (config st) (heap st) repo_name (temp_path e m repo_name) profile
           = Inr (cmd, h1) \<and>
         run e cmd (files st) = (Completed returncode out err, fs1) \<and> returncode \<noteq> 0))"
proof (intro conjI allI impI)
  fix cmd h1 returncode out err fs1
  assume a: "build_gitingest_command (config st) (heap st) repo_name (temp_path e m repo_name) profile
         = Inr (cmd, h1) \<and>
       run e cmd (files st) = (Completed returncode out err, fs1) \<and> returncode \<noteq> 0"
  then show "ingest e m repo_name profile version st =
         (Inl (SystemExit 1),
          \<lparr>config = config st, heap = h1, files = AList.delete (temp_path e m repo_name) fs1,
            stdout = stdout st @ [Msg_Ingesting repo_name profile, Msg_Running cmd,
                                  Msg_Gitingest_Error returncode, Msg_Stderr err]\<rparr>)"
    by (intro ingest_failure) simp_all
  show "map_of (AList.delete (temp_path e m repo_name) fs1) (temp_path e m repo_name) = None"
    by (simp add: delete_conv')
  show "map_of (AList.delete (temp_path e m repo_name) fs1) (log_path m) = map_of fs1 (log_path m)"
    using log_path_not_temp [of m e repo_name] by (simp add: delete_conv')
next
  fix cmd h1 returncode out err fs1 p
  assume "p \<noteq> temp_path e m repo_name"
  then show "map_of (AList.delete (temp_path e m repo_name) fs1) p = map_of fs1 p"
    by (simp add: delete_conv')
next
  fix n st'
  assume a: "ingest e m repo_name profile version st = (Inl (SystemExit n), st')"
  from ingest_exit_only_after_failure [OF a] show "n = 1" by simp
  from ingest_exit_only_after_failure [OF a]
  show "\<exists>cmd h1 returncode out err fs1.
         build_gitingest_command (config st) (heap st) repo_name (temp_path e m repo_name) profile
           = Inr (cmd, h1) \<and>
         run e cmd (files st) = (Completed returncode out err, fs1) \<and> returncode \<noteq> 0"
    by simp
qed

lemma example_temp_path:
  "temp_path (stub_env i g c k) example_manager ''repo1'' = ''out/repo1_temp_20240101_120000.md''"
  by (simp add: temp_path_def stub_env_def example_manager_def joinpath_def)

lemma example_command:
  "build_gitingest_command example_config example_heap ''repo1''
     ''out/repo1_temp_20240101_120000.md'' ''standard'' =
   Inr ([''gitingest'', ''/src/repo1'', ''-o'', ''out/repo1_temp_20240101_120000.md'', ''-s'', ''512'',
         ''-e'', ''*.lock'', ''-e'', ''dist/*'', ''-e'', ''*.test.js''],
        example_heap @ [[''*.lock'', ''dist/*'', ''*.test.js'']])"
proof -
  have s512: "str_int 512 = ''512''"
    by (simp add: str_int_def str_nat.simps digit_char_def)
  show ?thesis
    by (simp add: build_gitingest_command_def get_exclusions_def alloc_def list_copy_def
        list_extend_def example_config_def example_heap_def s512)
qed

theorem ingest_failure_exits_witness:
  "ingest (stub_env (Completed 1 [] ''boom'') (Completed 1 [] []) (Completed 0 ''1000'' []) JNull)
     example_manager ''repo1'' ''standard'' None (example_state [counter_binary]) =
   (Inl (SystemExit 1),
    \<lparr>config = example_config, heap = example_heap @ [[''*.lock'', ''dist/*'', ''*.test.js'']],
      files = [counter_binary],
      stdout = [Msg_Ingesting ''repo1'' ''standard'',
                Msg_Running [''gitingest'', ''/src/repo1'', ''-o'',
                  ''out/repo1_temp_20240101_120000.md'', ''-s'', ''512'',
                  ''-e'', ''*.lock'', ''-e'', ''dist/*'', ''-e'', ''*.test.js''],
                Msg_Gitingest_Error 1, Msg_Stderr ''boom'']\<rparr>)"
proof -
  let ?e = "stub_env (Completed 1 [] ''boom'') (Completed 1 [] []) (Completed 0 ''1000'' []) JNull"
  let ?st = "example_state [counter_binary]"
  let ?cmd = "[''gitingest'', ''/src/repo1'', ''-o'', ''out/repo1_temp_20240101_120000.md'',
     ''-s'', ''512'', ''-e'', ''*.lock'', ''-e'', ''dist/*'', ''-e'', ''*.test.js'']"
  let ?written = "AList.update ''out/repo1_temp_20240101_120000.md''
     \<lparr>content = replicate 4000 CHR ''x'', mtime = 1\<rparr> [counter_binary]"
  have b: "build_gitingest_command (config ?st) (heap ?st) ''repo1''
      (temp_path ?e example_manager ''repo1'') ''standard'' =
      Inr (?cmd, example_heap @ [[''*.lock'', ''dist/*'', ''*.test.js'']])"
    by (simp add: example_temp_path example_command example_state_def)
  have r: "run ?e ?cmd (files ?st) = (Completed 1 [] ''boom'', ?written)"
    by (simp add: stub_env_def stub_run_def example_state_def)
  have d: "AList.delete ''out/repo1_temp_20240101_120000.md'' ?written = [counter_binary]"
    by (simp add: counter_binary_def)
  have prem: "build_gitingest_command (config ?st) (heap ?st) ''repo1''
      (temp_path ?e example_manager ''repo1'') ''standard'' =
      Inr (?cmd, example_heap @ [[''*.lock'', ''dist/*'', ''*.test.js'']]) \<and>
    run ?e ?cmd (files ?st) = (Completed 1 [] ''boom'', ?written) \<and> (1::int) \<noteq> 0"
    using b r by simp
  note t = ingest_failure_exits [of ?st "''repo1''" ?e example_manager "''standard''" None,
      THEN conjunct1, rule_format, OF prem, THEN conjunct1]
  from t [unfolded example_temp_path d] show ?thesis
    by (simp add: example_state_def)
qed

lemmas ingest_eval = ingest_def ingest_try_def count_tokens_def say_def exists_def
  stub_env_def stub_run_def example_manager_def example_state_def counter_binary_def
  example_command joinpath_def strip_def Let_def

text \<open>
  A failure other than that of the ingestion command that does not degrade: the counter
  ends with status 0 and prints nothing, \<^verbatim>\<open>ValueError\<close> leaves \<open>ingest\<close>, and the temporary
  file stays where it is.
\<close>

theorem ingest_counter_output_counterexample:
  "ingest (stub_env (Completed 0 [] []) (Completed 1 [] []) (Completed 0 [] []) JNull)
     example_manager ''repo1'' ''standard'' None (example_state [counter_binary]) =
   (Inl ValueError,
    \<lparr>config = example_config, heap = example_heap @ [[''*.lock'', ''dist/*'', ''*.test.js'']],
      files = [counter_binary,
               (''out/repo1_temp_20240101_120000.md'', \<lparr>content = replicate 4000 CHR ''x'', mtime = 1\<rparr>)],
      stdout = [Msg_Ingesting ''repo1'' ''standard'',
                Msg_Running [''gitingest'', ''/src/repo1'', ''-o'',
                  ''out/repo1_temp_20240101_120000.md'', ''-s'', ''512'',
                  ''-e'', ''*.lock'', ''-e'', ''dist/*'', ''-e'', ''*.test.js''],
                Msg_Stdout [], Msg_Counting]\<rparr>)"
  by (simp add: ingest_eval)

end
